theory Spec2Isabelle
  imports Main
begin

section \<open>Values and platform objects used by the request context\<close>

text \<open>
  The context class of \<^verbatim>\<open>src/core/context.ts\<close> works on the platform's
  \<^verbatim>\<open>Request\<close>, \<^verbatim>\<open>Response\<close>, \<^verbatim>\<open>Headers\<close> and \<^verbatim>\<open>URL\<close> objects. They are
  modelled by the fields the class reads and writes. A header collection is a finite map
  from the lower-case header name to the header value; the operations \<open>Headers_get\<close>
  and \<open>Headers_set\<close> below are the platform's \<^verbatim>\<open>headers.get(k)\<close> and
  \<^verbatim>\<open>headers.set(k, v)\<close>.
\<close>

type_synonym Headers = "string \<rightharpoonup> string"

text \<open>
  A JSON value as a handler passes it to the response helpers. Numbers are integers here;
  the only property of a number the context looks at is whether it is zero.
\<close>

datatype JSONValue =
    JNull
  | JBool bool
  | JNumber int
  | JString string
  | JArray "JSONValue list"
  | JObject "(string \<times> JSONValue) list"

text \<open>JavaScript truthiness, as the operator \<^verbatim>\<open>||\<close> tests it.\<close>

fun truthy :: "JSONValue \<Rightarrow> bool" where
  "truthy JNull = False"
| "truthy (JBool b) = b"
| "truthy (JNumber n) = (n \<noteq> 0)"
| "truthy (JString s) = (s \<noteq> [])"
| "truthy (JArray xs) = True"
| "truthy (JObject kvs) = True"

record URL =
  url_host :: string
  url_pathname :: string

record Request =
  req_method :: string
  req_url :: URL
  req_headers :: Headers

record Response =
  status :: nat
  statusText :: string
  headers :: Headers

text \<open>
  \<^verbatim>\<open>ResponseInit\<close>: an object literal whose three properties may each be missing.
  \<open>spread a b\<close> is the object literal \<^verbatim>\<open>{...a, ...b}\<close>: a property of \<open>b\<close> that is
  present overrides the one of \<open>a\<close>.
\<close>

record ResponseInit =
  init_headers :: "Headers option"
  init_status :: "nat option"
  init_statusText :: "string option"

definition empty_init :: ResponseInit where
  "empty_init = \<lparr>init_headers = None, init_status = None, init_statusText = None\<rparr>"

definition or_else :: "'a option \<Rightarrow> 'a option \<Rightarrow> 'a option" where
  "or_else b a = (case b of Some v \<Rightarrow> Some v | None \<Rightarrow> a)"

definition spread :: "ResponseInit \<Rightarrow> ResponseInit \<Rightarrow> ResponseInit" where
  "spread a b =
     \<lparr>init_headers = or_else (init_headers b) (init_headers a),
      init_status = or_else (init_status b) (init_status a),
      init_statusText = or_else (init_statusText b) (init_statusText a)\<rparr>"

text \<open>The two configuration properties the context reads; each may be left out.\<close>

record ZarfConfig =
  strictRouting :: "bool option"
  serverHeader :: "string option"

subsection \<open>String helpers of the JavaScript runtime\<close>

text \<open>
  \<^verbatim>\<open>String.prototype.toLowerCase\<close> on the ASCII letters. A request method is an HTTP
  token, so it has no character outside ASCII.
\<close>

definition lower_char :: "char \<Rightarrow> char" where
  "lower_char c =
     (let n = (of_char c :: nat)
      in if of_char CHR ''A'' \<le> n \<and> n \<le> of_char CHR ''Z'' then char_of (n + 32) else c)"

definition toLowerCase :: "string \<Rightarrow> string" where
  "toLowerCase s = map lower_char s"

definition endsWith :: "string \<Rightarrow> char \<Rightarrow> bool" where
  "endsWith s c = (s \<noteq> [] \<and> last s = c)"

text \<open>\<^verbatim>\<open>s.substring(0, n)\<close> for \<open>0 \<le> n\<close>: the first \<open>n\<close> characters.\<close>

definition substring0 :: "string \<Rightarrow> nat \<Rightarrow> string" where
  "substring0 s n = take n s"

text \<open>
  \<^verbatim>\<open>s.split(c)\<close> for a one-character separator: the fields between the separators,
  always at least one (\<^verbatim>\<open>''.split(',')\<close> is \<^verbatim>\<open>['']\<close>).
\<close>

fun split_on :: "char \<Rightarrow> string \<Rightarrow> string list" where
  "split_on c [] = [[]]"
| "split_on c (x # xs) =
     (if x = c then [] # split_on c xs
      else (case split_on c xs of
              [] \<Rightarrow> [[x]]
            | f # fs \<Rightarrow> (x # f) # fs))"

text \<open>\<^verbatim>\<open>xs.join(c)\<close>.\<close>

fun join_with :: "char \<Rightarrow> string list \<Rightarrow> string" where
  "join_with c [] = []"
| "join_with c [x] = x"
| "join_with c (x # y # ys) = x @ c # join_with c (y # ys)"

text \<open>
  \<^verbatim>\<open>[...new Set(xs)]\<close>: the elements of \<open>xs\<close> in order of first occurrence. A
  \<^verbatim>\<open>Set\<close> keeps insertion order and ignores the insertion of a member.
\<close>

definition set_add :: "'a list \<Rightarrow> 'a \<Rightarrow> 'a list" where
  "set_add s x = (if x \<in> set s then s else s @ [x])"

definition new_Set :: "'a list \<Rightarrow> 'a list" where
  "new_Set xs = foldl set_add [] xs"

subsection \<open>Reading and writing a header\<close>

text \<open>
  The platform's \<^verbatim>\<open>Headers\<close> compares names without regard to case, removes the
  HTTP white space (tab, line feed, carriage return, space) around a value before it
  stores it, and refuses with a \<^verbatim>\<open>TypeError\<close> a name that is not a token and a
  value that holds a NUL, a line feed or a carriage return.
\<close>

datatype js_error = TypeError

definition http_whitespace :: "char \<Rightarrow> bool" where
  "http_whitespace c = (c = CHR 0x09 \<or> c = CHR 0x0A \<or> c = CHR 0x0D \<or> c = CHR 0x20)"

definition trim_value :: "string \<Rightarrow> string" where
  "trim_value v = rev (dropWhile http_whitespace (rev (dropWhile http_whitespace v)))"

definition is_tchar :: "char \<Rightarrow> bool" where
  "is_tchar c =
     (let n = (of_char c :: nat)
      in (of_char CHR ''a'' \<le> n \<and> n \<le> of_char CHR ''z'') \<or>
         (of_char CHR ''A'' \<le> n \<and> n \<le> of_char CHR ''Z'') \<or>
         (of_char CHR ''0'' \<le> n \<and> n \<le> of_char CHR ''9'') \<or>
         c \<in> set ''!#$%&*+-.^_|~'' \<or> c = CHR 0x27 \<or> c = CHR 0x60)"

definition valid_name :: "string \<Rightarrow> bool" where
  "valid_name k = (k \<noteq> [] \<and> list_all is_tchar k)"

definition valid_value :: "string \<Rightarrow> bool" where
  "valid_value v = list_all (\<lambda>c. c \<noteq> CHR 0x00 \<and> c \<noteq> CHR 0x0A \<and> c \<noteq> CHR 0x0D) v"

definition Headers_get :: "Headers \<Rightarrow> string \<Rightarrow> string option" where
  "Headers_get h k = h (toLowerCase k)"

definition Headers_set :: "Headers \<Rightarrow> string \<Rightarrow> string \<Rightarrow> js_error + Headers" where
  "Headers_set h k v =
     (let v' = trim_value v
      in if valid_name k \<and> valid_value v' then Inr (h(toLowerCase k \<mapsto> v'))
         else Inl TypeError)"

text \<open>White space at the start and at the end of a string.\<close>

definition starts_with_space :: "string \<Rightarrow> bool" where
  "starts_with_space s = (s \<noteq> [] \<and> http_whitespace (hd s))"

definition ends_with_space :: "string \<Rightarrow> bool" where
  "ends_with_space s = (s \<noteq> [] \<and> http_whitespace (last s))"

section \<open>The request context\<close>

text \<open>
  Class \<^verbatim>\<open>AppContext\<close>. Middleware functions are kept by an identifier of type \<open>'f\<close>
  (a function stored in the queue is never called by the context itself), the
  application's locals have type \<open>'s\<close>. The query and header proxies of the constructor
  are read-only views of the request and are not fields of the model. The private fields
  and the field \<^verbatim>\<open>method\<close> carry the prefix \<open>ctx_\<close>.
\<close>

record ('f, 's) AppContext =
  ctx_response :: "Response option"
  ctx_config :: ZarfConfig
  ctx_error :: "string option"
  ctx_code :: "nat option"
  ctx_middlewares :: "'f list"
  ctx_request :: Request
  url :: URL
  ctx_method :: string
  host :: string
  path :: string
  ctx_locals :: 's
  startTime :: nat
  ctx_isImmediate :: bool
  body :: "JSONValue option"

text \<open>
  The constructor. \<open>now\<close> is \<^verbatim>\<open>Date.now()\<close>, \<open>resp0\<close> is the platform's
  \<^verbatim>\<open>new Response('')\<close>, \<open>locals0\<close> the empty locals object. \<open>AppContext_new\<close>
  gives the fields as the constructor assigns them. The one statement of the constructor
  that can throw is the store of the \<^verbatim>\<open>Server\<close> header, which comes after the
  assignments and stores nothing when it throws; \<open>AppContext_construct\<close> is the
  constructor with that error as a value.
\<close>

definition AppContext_new ::
  "nat \<Rightarrow> Response \<Rightarrow> 's \<Rightarrow> Request \<Rightarrow> ZarfConfig \<Rightarrow> ('f, 's) AppContext" where
  "AppContext_new now resp0 locals0 req config =
     (let u = req_url req;
          pathname = url_pathname u
      in \<lparr>ctx_response =
            Some (case serverHeader config of
                    None \<Rightarrow> resp0
                  | Some h \<Rightarrow>
                      if h = [] then resp0
                      else (case Headers_set (headers resp0) ''Server'' h of
                              Inl e \<Rightarrow> resp0
                            | Inr hs \<Rightarrow> resp0\<lparr>headers := hs\<rparr>)),
          ctx_config = config,
          ctx_error = None,
          ctx_code = None,
          ctx_middlewares = [],
          ctx_request = req,
          url = u,
          ctx_method = toLowerCase (req_method req),
          host = url_host u,
          path =
            (if strictRouting config = Some True \<or> pathname = ''/'' then pathname
             else if endsWith pathname CHR ''/'' then
               substring0 pathname (length pathname - 1)
             else pathname),
          ctx_locals = locals0,
          startTime = now,
          ctx_isImmediate = False,
          body = None\<rparr>)"

definition AppContext_construct ::
  "nat \<Rightarrow> Response \<Rightarrow> 's \<Rightarrow> Request \<Rightarrow> ZarfConfig \<Rightarrow> js_error + ('f, 's) AppContext" where
  "AppContext_construct now resp0 locals0 req config =
     (case serverHeader config of
        None \<Rightarrow> Inr (AppContext_new now resp0 locals0 req config)
      | Some h \<Rightarrow>
          if h = [] then Inr (AppContext_new now resp0 locals0 req config)
          else (case Headers_set (headers resp0) ''Server'' h of
                  Inl e \<Rightarrow> Inl e
                | Inr hs \<Rightarrow> Inr (AppContext_new now resp0 locals0 req config)))"

subsection \<open>Accessors and setters\<close>

definition set_response :: "Response option \<Rightarrow> ('f, 's) AppContext \<Rightarrow> ('f, 's) AppContext" where
  "set_response resp ctx = ctx\<lparr>ctx_response := resp\<rparr>"

definition set_status :: "nat \<Rightarrow> ('f, 's) AppContext \<Rightarrow> ('f, 's) AppContext" where
  "set_status code ctx = ctx\<lparr>ctx_code := Some code\<rparr>"

definition set_error :: "string option \<Rightarrow> ('f, 's) AppContext \<Rightarrow> ('f, 's) AppContext" where
  "set_error err ctx = ctx\<lparr>ctx_error := err\<rparr>"

definition set_locals :: "'s \<Rightarrow> ('f, 's) AppContext \<Rightarrow> ('f, 's) AppContext" where
  "set_locals v ctx = ctx\<lparr>ctx_locals := v\<rparr>"

definition set_body :: "JSONValue option \<Rightarrow> ('f, 's) AppContext \<Rightarrow> ('f, 's) AppContext" where
  "set_body b ctx = ctx\<lparr>body := b\<rparr>"

subsection \<open>Header helpers\<close>

text \<open>
  \<^verbatim>\<open>this._response?.headers.set(k, v)\<close>: nothing happens when the response slot holds
  \<^verbatim>\<open>null\<close>; the platform's refusal is the method's error.
\<close>

definition setHeader ::
  "string \<Rightarrow> string \<Rightarrow> ('f, 's) AppContext \<Rightarrow> js_error + ('f, 's) AppContext" where
  "setHeader headerKey headerVal ctx =
     (case ctx_response ctx of
        None \<Rightarrow> Inr ctx
      | Some r \<Rightarrow>
          (case Headers_set (headers r) headerKey headerVal of
             Inl e \<Rightarrow> Inl e
           | Inr hs \<Rightarrow> Inr (ctx\<lparr>ctx_response := Some (r\<lparr>headers := hs\<rparr>)\<rparr>)))"

text \<open>
  \<open>getContentType\<close> is the MIME table of \<^verbatim>\<open>utils/mime\<close>, a parameter here: it
  gives \<open>None\<close> for a name it does not know.
\<close>

definition setType ::
  "(string \<Rightarrow> string option) \<Rightarrow> string \<Rightarrow> ('f, 's) AppContext \<Rightarrow>
   js_error + ('f, 's) AppContext" where
  "setType getContentType headerVal ctx =
     (case getContentType headerVal of
        None \<Rightarrow> Inr ctx
      | Some t \<Rightarrow> if t = [] then Inr ctx else setHeader ''Content-Type'' t ctx)"

definition isType ::
  "(string \<Rightarrow> string option) \<Rightarrow> string \<Rightarrow> ('f, 's) AppContext \<Rightarrow> bool" where
  "isType getContentType headerVal ctx =
     (case Headers_get (req_headers (ctx_request ctx)) ''Content-Type'' of
        None \<Rightarrow> False
      | Some v \<Rightarrow> getContentType headerVal = Some v)"

text \<open>
  \<^verbatim>\<open>(this._response?.headers.get('Vary') || '')\<close>: the stored value, or the empty string
  when there is no response, no such header, or the header is empty.
\<close>

definition vary_of :: "('f, 's) AppContext \<Rightarrow> string" where
  "vary_of ctx =
     (case ctx_response ctx of
        None \<Rightarrow> []
      | Some r \<Rightarrow> (case Headers_get (headers r) ''Vary'' of None \<Rightarrow> [] | Some v \<Rightarrow> v))"

definition setVary ::
  "string list \<Rightarrow> ('f, 's) AppContext \<Rightarrow> js_error + ('f, 's) AppContext" where
  "setVary headerVals ctx =
     (if headerVals \<noteq> [] then
        (let varies = split_on CHR '','' (vary_of ctx)
         in setHeader ''Vary'' (join_with CHR '','' (new_Set (varies @ headerVals))) ctx)
      else Inr ctx)"

text \<open>
  The Vary header after one call of \<^verbatim>\<open>setVary\<close> and after a second call with the
  same values; \<open>None\<close> when the platform refuses one of the calls.
\<close>

definition vary_twice :: "string list \<Rightarrow> ('f, 's) AppContext \<Rightarrow> (string \<times> string) option" where
  "vary_twice headerVals ctx =
     (case setVary headerVals ctx of
        Inl e \<Rightarrow> None
      | Inr c \<Rightarrow>
          (case setVary headerVals c of
             Inl e \<Rightarrow> None
           | Inr c' \<Rightarrow> Some (vary_of c, vary_of c')))"

subsection \<open>Response construction\<close>

definition getResponseInit :: "('f, 's) AppContext \<Rightarrow> ResponseInit" where
  "getResponseInit ctx =
     (case ctx_response ctx of
        Some r \<Rightarrow>
          \<lparr>init_headers = Some (headers r),
           init_status = Some (status r),
           init_statusText = Some (statusText r)\<rparr>
      | None \<Rightarrow> empty_init)"

text \<open>
  The helpers \<^verbatim>\<open>send\<close>, \<^verbatim>\<open>json\<close>, \<^verbatim>\<open>text\<close>, \<^verbatim>\<open>html\<close> and \<^verbatim>\<open>head\<close> of
  \<^verbatim>\<open>./response\<close> build the platform response of type \<open>'r\<close>; the context hands them
  the response metadata. They are parameters of the methods that call them.
\<close>

definition ctx_head :: "(ResponseInit \<Rightarrow> 'r) \<Rightarrow> ('f, 's) AppContext \<Rightarrow> ResponseInit \<Rightarrow> 'r" where
  "ctx_head head_fn ctx args = head_fn (spread (getResponseInit ctx) args)"

definition ctx_send ::
  "(ResponseInit \<Rightarrow> 'r) \<Rightarrow> (JSONValue \<Rightarrow> ResponseInit \<Rightarrow> 'r) \<Rightarrow>
   ('f, 's) AppContext \<Rightarrow> JSONValue \<Rightarrow> ResponseInit \<Rightarrow> 'r" where
  "ctx_send head_fn send_fn ctx b args =
     (if req_method (ctx_request ctx) = ''HEAD'' then ctx_head head_fn ctx empty_init
      else send_fn b (spread (getResponseInit ctx) args))"

definition ctx_json ::
  "(JSONValue \<Rightarrow> ResponseInit \<Rightarrow> 'r) \<Rightarrow> ('f, 's) AppContext \<Rightarrow> JSONValue \<Rightarrow> ResponseInit \<Rightarrow> 'r" where
  "ctx_json json_fn ctx b args = json_fn b (spread (getResponseInit ctx) args)"

definition ctx_text ::
  "(string \<Rightarrow> ResponseInit \<Rightarrow> 'r) \<Rightarrow> ('f, 's) AppContext \<Rightarrow> string \<Rightarrow> ResponseInit \<Rightarrow> 'r" where
  "ctx_text text_fn ctx t args = text_fn t (spread (getResponseInit ctx) args)"

definition ctx_html ::
  "(string \<Rightarrow> ResponseInit \<Rightarrow> 'r) \<Rightarrow> ('f, 's) AppContext \<Rightarrow> string \<Rightarrow> ResponseInit \<Rightarrow> 'r" where
  "ctx_html html_fn ctx t args = html_fn t (spread (getResponseInit ctx) args)"

subsection \<open>Halt\<close>

text \<open>
  What a link of the chain can throw: the halt signal of \<^verbatim>\<open>errors/error\<close>, built from
  the three constructor arguments, or any other error. The second argument of the signal
  is a JavaScript value that may be \<^verbatim>\<open>undefined\<close> (\<open>None\<close>).
\<close>

datatype thrown =
    ZarfHaltError (halt_status: nat) (halt_payload: "JSONValue option") (halt_init: ResponseInit)
  | OtherError string

text \<open>
  \<^verbatim>\<open>body || HTTP_STATUS_CODES[statusCode]\<close>. The table \<open>codes\<close> of
  \<^verbatim>\<open>constants/codes\<close> is a parameter: status text by status code, \<open>None\<close> where
  the table has no entry. An argument that was not supplied is \<open>None\<close>.
\<close>

definition halt_body :: "(nat \<rightharpoonup> string) \<Rightarrow> nat \<Rightarrow> JSONValue option \<Rightarrow> JSONValue option" where
  "halt_body codes statusCode b =
     (case b of
        Some v \<Rightarrow> if truthy v then Some v else map_option JString (codes statusCode)
      | None \<Rightarrow> map_option JString (codes statusCode))"

text \<open>
  \<open>halt\<close> has no normal return: its result is always the thrown value (\<open>Inl\<close>).
\<close>

definition halt ::
  "(nat \<rightharpoonup> string) \<Rightarrow> ('f, 's) AppContext \<Rightarrow> nat \<Rightarrow> JSONValue option \<Rightarrow> thrown + unit" where
  "halt codes ctx statusCode b =
     Inl (ZarfHaltError statusCode (halt_body codes statusCode b)
            (spread (getResponseInit ctx) (empty_init\<lparr>init_status := Some statusCode\<rparr>)))"

subsection \<open>Redirect\<close>

text \<open>
  \<^verbatim>\<open>Response.redirect\<close> and \<^verbatim>\<open>encodeURI\<close> are the platform's; the method marks the
  context as immediate and returns the platform's redirect response.
\<close>

definition redirect_loc :: "('f, 's) AppContext \<Rightarrow> string \<Rightarrow> string" where
  "redirect_loc ctx u =
     (if u = ''back'' then
        (case Headers_get (req_headers (ctx_request ctx)) ''Referrer'' of
           None \<Rightarrow> ''/''
         | Some v \<Rightarrow> if v = [] then ''/'' else v)
      else u)"

definition redirect ::
  "(string \<Rightarrow> nat \<Rightarrow> 'r) \<Rightarrow> (string \<Rightarrow> string) \<Rightarrow> ('f, 's) AppContext \<Rightarrow> string \<Rightarrow> nat \<Rightarrow>
   'r \<times> ('f, 's) AppContext" where
  "redirect Response_redirect encodeURI ctx u statusCode =
     (Response_redirect (encodeURI (redirect_loc ctx u)) statusCode,
      ctx\<lparr>ctx_isImmediate := True\<rparr>)"

subsection \<open>The queue of after-middleware\<close>

definition after :: "'f \<Rightarrow> ('f, 's) AppContext \<Rightarrow> ('f, 's) AppContext" where
  "after func ctx = ctx\<lparr>ctx_middlewares := ctx_middlewares ctx @ [func]\<rparr>"

definition afterMiddlewares :: "('f, 's) AppContext \<Rightarrow> 'f list" where
  "afterMiddlewares ctx = ctx_middlewares ctx"

subsection \<open>Sequences of operations on one context\<close>

text \<open>
  Every method and setter of the class that can change the context, as a command; the
  getters and the response helpers change nothing and are left out. \<open>Halt\<close> throws
  and leaves the context as it is, and so does a header helper that the platform
  refuses. \<open>exec\<close> gives the context after one command,
  \<open>run_ops\<close> after a sequence of them.
\<close>

datatype ('f, 's) ctx_op =
    SetResponse "Response option"
  | SetStatus nat
  | SetError "string option"
  | SetLocals 's
  | SetBody "JSONValue option"
  | SetHeader string string
  | SetType string
  | SetVary "string list"
  | Halt nat "JSONValue option"
  | Redirect string nat
  | After 'f

fun exec ::
  "(string \<Rightarrow> string option) \<Rightarrow> ('f, 's) ctx_op \<Rightarrow> ('f, 's) AppContext \<Rightarrow> ('f, 's) AppContext" where
  "exec g (SetResponse r) ctx = set_response r ctx"
| "exec g (SetStatus c) ctx = set_status c ctx"
| "exec g (SetError e) ctx = set_error e ctx"
| "exec g (SetLocals v) ctx = set_locals v ctx"
| "exec g (SetBody b) ctx = set_body b ctx"
| "exec g (SetHeader k v) ctx = (case setHeader k v ctx of Inl e \<Rightarrow> ctx | Inr c \<Rightarrow> c)"
| "exec g (SetType t) ctx = (case setType g t ctx of Inl e \<Rightarrow> ctx | Inr c \<Rightarrow> c)"
| "exec g (SetVary vs) ctx = (case setVary vs ctx of Inl e \<Rightarrow> ctx | Inr c \<Rightarrow> c)"
| "exec g (Halt c b) ctx = ctx"
| "exec g (Redirect u c) ctx = snd (redirect (\<lambda>l s. ()) (\<lambda>l. l) ctx u c)"
| "exec g (After f) ctx = after f ctx"

fun run_ops ::
  "(string \<Rightarrow> string option) \<Rightarrow> ('f, 's) ctx_op list \<Rightarrow> ('f, 's) AppContext \<Rightarrow> ('f, 's) AppContext" where
  "run_ops g [] ctx = ctx"
| "run_ops g (op # ops) ctx = run_ops g ops (exec g op ctx)"

fun after_args :: "('f, 's) ctx_op list \<Rightarrow> 'f list" where
  "after_args [] = []"
| "after_args (After f # ops) = f # after_args ops"
| "after_args (op # ops) = after_args ops"

section \<open>Pattern compiler and matcher\<close>

text \<open>
  Modelled from the spec: the pattern compiler, the route registry and the matcher are
  not among the sources (only \<^verbatim>\<open>core/context.ts\<close> and two example applications
  are), so this section follows the specification's sections 3, 4.1, 4.2 and 4.3.
\<close>

datatype Segment =
    Static string
  | Param string
  | OptionalParam string
  | Wildcard string

text \<open>
  Modelled from the spec: the slash-delimited units of a path or pattern. The empty
  field before the leading slash is not a segment.
\<close>

definition path_segments :: "string \<Rightarrow> string list" where
  "path_segments p =
     (case split_on CHR ''/'' p of
        [] \<Rightarrow> []
      | f # fs \<Rightarrow> if f = [] then fs else f # fs)"

text \<open>
  Modelled from the spec: \<^verbatim>\<open>:name\<close> is a required named segment, \<^verbatim>\<open>:name?\<close> an
  optional one, \<^verbatim>\<open>*name\<close> a wildcard capture, anything else a static segment.
\<close>

definition compile_segment :: "string \<Rightarrow> Segment" where
  "compile_segment s =
     (case s of
        [] \<Rightarrow> Static []
      | c # rest \<Rightarrow>
          if c = CHR '':'' then
            (if endsWith rest CHR ''?'' then OptionalParam (butlast rest) else Param rest)
          else if c = CHR ''*'' then Wildcard rest
          else Static s)"

text \<open>
  Modelled from the spec: the parameter name a segment produces, whether a segment is
  optional, whether it consumes exactly one request segment (static or named), and
  whether the name of a wildcard or optional segment occurs more than once among the
  parameter names of the pattern.
\<close>

fun param_name :: "Segment \<Rightarrow> string option" where
  "param_name (Static l) = None"
| "param_name (Param n) = Some n"
| "param_name (OptionalParam n) = Some n"
| "param_name (Wildcard n) = Some n"

fun is_optional :: "Segment \<Rightarrow> bool" where
  "is_optional (OptionalParam n) = True"
| "is_optional seg = False"

fun is_fixed :: "Segment \<Rightarrow> bool" where
  "is_fixed (Static l) = True"
| "is_fixed (Param n) = True"
| "is_fixed seg = False"

fun collides :: "Segment list \<Rightarrow> Segment \<Rightarrow> bool" where
  "collides segs (OptionalParam n) = (1 < count_list (map param_name segs) (Some n))"
| "collides segs (Wildcard n) = (1 < count_list (map param_name segs) (Some n))"
| "collides segs seg = False"

datatype ConfigError = MisplacedOptional | NameCollision

text \<open>
  Modelled from the spec: compilation fails when an optional segment is not the last
  segment, or when the name of a wildcard or optional segment is also the name of
  another parameter of the pattern.
\<close>

definition compile_pattern :: "string \<Rightarrow> ConfigError + Segment list" where
  "compile_pattern p =
     (let segs = map compile_segment (path_segments p)
      in if list_ex is_optional (butlast segs) then Inl MisplacedOptional
         else if list_ex (collides segs) segs then Inl NameCollision
         else Inr segs)"

text \<open>
  Modelled from the spec: a wildcard consumes one or more request segments, the shortest
  run after which the remainder of the pattern still matches. \<open>shortest_run ok run segs\<close>
  moves segments from \<open>segs\<close> to the end of \<open>run\<close> until the run is not empty and
  \<open>ok\<close> accepts what is left.
\<close>

fun shortest_run ::
  "(string list \<Rightarrow> bool) \<Rightarrow> string list \<Rightarrow> string list \<Rightarrow> (string list \<times> string list) option" where
  "shortest_run ok run [] = (if run \<noteq> [] \<and> ok [] then Some (run, []) else None)"
| "shortest_run ok run (s # ss) =
     (if run \<noteq> [] \<and> ok (s # ss) then Some (run, s # ss)
      else shortest_run ok (run @ [s]) ss)"

text \<open>
  Modelled from the spec: structural matching, segment by segment. The result lists the
  bindings in pattern order; an optional parameter with no segment left is bound to
  \<open>None\<close> (absent). A wildcard is bound to its run of segments joined by a slash.
\<close>

type_synonym bindings = "(string \<times> string option) list"

fun match_segs :: "Segment list \<Rightarrow> string list \<Rightarrow> bindings option" where
  "match_segs [] segs = (if segs = [] then Some [] else None)"
| "match_segs (Static l # ps) segs =
     (case segs of
        [] \<Rightarrow> None
      | s # ss \<Rightarrow> if l = s then match_segs ps ss else None)"
| "match_segs (Param n # ps) segs =
     (case segs of
        [] \<Rightarrow> None
      | s # ss \<Rightarrow> map_option ((#) (n, Some s)) (match_segs ps ss))"
| "match_segs (OptionalParam n # ps) segs =
     (case segs of
        [] \<Rightarrow> map_option ((#) (n, None)) (match_segs ps [])
      | s # ss \<Rightarrow> map_option ((#) (n, Some s)) (match_segs ps ss))"
| "match_segs (Wildcard n # ps) segs =
     (case shortest_run (\<lambda>rest. match_segs ps rest \<noteq> None) [] segs of
        None \<Rightarrow> None
      | Some (run, rest) \<Rightarrow>
          map_option ((#) (n, Some (join_with CHR ''/'' run))) (match_segs ps rest))"

text \<open>
  Modelled from the spec: a group contributes before- and after-middleware to the routes
  registered under it; a compiled route keeps its groups root first, its handler and its
  declared-order index.
\<close>

record 'f Group =
  group_before :: "'f list"
  group_after :: "'f list"

record 'f CompiledRoute =
  route_method :: string
  route_segments :: "Segment list"
  route_groups :: "'f Group list"
  route_handler :: 'f
  route_index :: nat

text \<open>
  Modelled from the spec: registration compiles the pattern and appends the route to the
  registry; a configuration error leaves no registry.
\<close>

definition register ::
  "'f CompiledRoute list \<Rightarrow> string \<Rightarrow> string \<Rightarrow> 'f Group list \<Rightarrow> 'f \<Rightarrow>
   ConfigError + 'f CompiledRoute list" where
  "register registry m fullPath groups handler =
     (case compile_pattern fullPath of
        Inl e \<Rightarrow> Inl e
      | Inr segs \<Rightarrow>
          Inr (registry @
               [\<lparr>route_method = m, route_segments = segs, route_groups = groups,
                 route_handler = handler, route_index = length registry\<rparr>]))"

text \<open>
  Modelled from the spec: a sequence of registrations (method, path, handler) outside any
  group, in order; the first configuration error stops it.
\<close>

fun register_all ::
  "'f CompiledRoute list \<Rightarrow> (string \<times> string \<times> 'f) list \<Rightarrow> ConfigError + 'f CompiledRoute list" where
  "register_all registry [] = Inr registry"
| "register_all registry ((m, p, h) # rest) =
     (case register registry m p [] h of
        Inl e \<Rightarrow> Inl e
      | Inr registry' \<Rightarrow> register_all registry' rest)"

text \<open>
  Modelled from the spec: the matcher tries the routes of the request's method in
  registration order and returns the first whose pattern matches, with its bindings;
  \<open>None\<close> is the outcome NOT_FOUND.
\<close>

definition route_matches :: "string \<Rightarrow> string list \<Rightarrow> 'f CompiledRoute \<Rightarrow> bool" where
  "route_matches m segs r = (route_method r = m \<and> match_segs (route_segments r) segs \<noteq> None)"

fun match_routes ::
  "string \<Rightarrow> string list \<Rightarrow> 'f CompiledRoute list \<Rightarrow> ('f CompiledRoute \<times> bindings) option" where
  "match_routes m segs [] = None"
| "match_routes m segs (r # rs) =
     (if route_method r = m then
        (case match_segs (route_segments r) segs of
           Some bs \<Rightarrow> Some (r, bs)
         | None \<Rightarrow> match_routes m segs rs)
      else match_routes m segs rs)"

definition match_route ::
  "'f CompiledRoute list \<Rightarrow> string \<Rightarrow> string \<Rightarrow> ('f CompiledRoute \<times> bindings) option" where
  "match_route registry m p = match_routes m (path_segments p) registry"

section \<open>Middleware chain and dispatcher\<close>

text \<open>
  Modelled from the spec: the middleware chain and the dispatcher are not among the
  sources; this section follows the specification's sections 4.4, 4.5 and 4.6. What a
  link does is given by \<open>impl\<close>: from the matched parameters and the context it
  yields the operations the link performs on the context (the commands of \<open>exec\<close>
  above, among them \<open>After\<close>) and how the link ends.
\<close>

datatype 'r link_result =
    Continue
  | Respond 'r
  | CallHalt nat "JSONValue option"
  | Fault string

type_synonym ('f, 's, 'r) link_impl =
  "'f \<Rightarrow> bindings \<Rightarrow> ('f, 's) AppContext \<Rightarrow> ('f, 's) ctx_op list \<times> 'r link_result"

datatype 'r chain_outcome =
    Completed "'r option"
  | Threw thrown

text \<open>
  Modelled from the spec: links run strictly in order; a link that continues hands over to
  the next one, a link that responds, halts or fails ends the chain. The result carries
  the operations performed on the context so far and the context after them.
\<close>

fun run_chain ::
  "('f, 's, 'r) link_impl \<Rightarrow> (nat \<rightharpoonup> string) \<Rightarrow> (string \<Rightarrow> string option) \<Rightarrow> bindings \<Rightarrow>
   'f list \<Rightarrow> ('f, 's) AppContext \<Rightarrow>
   'r chain_outcome \<times> ('f, 's) ctx_op list \<times> ('f, 's) AppContext" where
  "run_chain impl codes g params [] ctx = (Completed None, [], ctx)"
| "run_chain impl codes g params (f # fs) ctx =
     (case impl f params ctx of
        (ops, res) \<Rightarrow>
          (let ctx' = run_ops g ops ctx
           in case res of
                Continue \<Rightarrow>
                  (case run_chain impl codes g params fs ctx' of
                     (out, log, c) \<Rightarrow> (out, ops @ log, c))
              | Respond r \<Rightarrow> (Completed (Some r), ops, ctx')
              | CallHalt s b \<Rightarrow>
                  (case halt codes ctx' s b of
                     Inl e \<Rightarrow> (Threw e, ops, ctx')
                   | Inr u \<Rightarrow>
                       (case run_chain impl codes g params fs ctx' of
                          (out, log, c) \<Rightarrow> (out, ops @ log, c)))
              | Fault e \<Rightarrow> (Threw (OtherError e), ops, ctx')))"

text \<open>
  Modelled from the spec: the before-middleware of the route's groups runs root first; the
  number of groups entered is returned with the outcome.
\<close>

fun run_groups ::
  "('f, 's, 'r) link_impl \<Rightarrow> (nat \<rightharpoonup> string) \<Rightarrow> (string \<Rightarrow> string option) \<Rightarrow> bindings \<Rightarrow>
   'f Group list \<Rightarrow> ('f, 's) AppContext \<Rightarrow>
   'r chain_outcome \<times> ('f, 's) ctx_op list \<times> nat \<times> ('f, 's) AppContext" where
  "run_groups impl codes g params [] ctx = (Completed None, [], 0, ctx)"
| "run_groups impl codes g params (grp # grps) ctx =
     (case run_chain impl codes g params (group_before grp) ctx of
        (Completed None, log, ctx') \<Rightarrow>
          (case run_groups impl codes g params grps ctx' of
             (out, log', n, c) \<Rightarrow> (out, log @ log', Suc n, c))
      | (out, log, ctx') \<Rightarrow> (out, log, Suc 0, ctx'))"

text \<open>
  Modelled from the spec: after-middleware runs for its side effects only; what a link
  returns is discarded and an error it throws is swallowed. The result lists the links
  that ran.
\<close>

fun run_after ::
  "('f, 's, 'r) link_impl \<Rightarrow> (string \<Rightarrow> string option) \<Rightarrow> bindings \<Rightarrow>
   'f list \<Rightarrow> ('f, 's) AppContext \<Rightarrow> 'f list \<times> ('f, 's) AppContext" where
  "run_after impl g params [] ctx = ([], ctx)"
| "run_after impl g params (f # fs) ctx =
     (case impl f params ctx of
        (ops, res) \<Rightarrow>
          (case run_after impl g params fs (run_ops g ops ctx) of
             (tr, c) \<Rightarrow> (f # tr, c)))"

text \<open>
  Modelled from the spec: the terminal outcomes of a dispatch, and what a dispatch leaves
  behind: the outcome, the operations the before-chain and the handler performed on the
  context, the after-middleware that ran (from the groups, from the context's queue) and
  the context at the end.
\<close>

datatype 'r resolution =
    NotFound
  | Responded "'r option"
  | HaltResponse nat "JSONValue option" ResponseInit
  | ErrorResponse string

record ('f, 's, 'r) dispatched =
  resolution :: "'r resolution"
  ops_log :: "('f, 's) ctx_op list"
  ran_group_after :: "'f list"
  ran_dynamic_after :: "'f list"
  final_ctx :: "('f, 's) AppContext"

text \<open>
  Modelled from the spec: state \<^verbatim>\<open>RUNNING_AFTER\<close> and the step to \<^verbatim>\<open>RESOLVED\<close>. A
  fault skips the after-chain. Otherwise the after-middleware of the groups entered runs,
  then the after-middleware queued on the context when the state was entered.
\<close>

definition finish ::
  "('f, 's, 'r) link_impl \<Rightarrow> (string \<Rightarrow> string option) \<Rightarrow> bindings \<Rightarrow> 'f CompiledRoute \<Rightarrow>
   'r chain_outcome \<Rightarrow> ('f, 's) ctx_op list \<Rightarrow> nat \<Rightarrow> ('f, 's) AppContext \<Rightarrow>
   ('f, 's, 'r) dispatched" where
  "finish impl g params r out log n ctx =
     (let after_phase = (\<lambda>res.
            (case run_after impl g params
                    (concat (map group_after (take n (route_groups r)))) ctx of
               (ran1, c1) \<Rightarrow>
                 (case run_after impl g params (afterMiddlewares ctx) c1 of
                    (ran2, c2) \<Rightarrow>
                      \<lparr>resolution = res, ops_log = log, ran_group_after = ran1,
                       ran_dynamic_after = ran2, final_ctx = c2\<rparr>)))
      in case out of
           Threw (OtherError e) \<Rightarrow>
             \<lparr>resolution = ErrorResponse e, ops_log = log, ran_group_after = [],
              ran_dynamic_after = [], final_ctx = ctx\<rparr>
         | Threw (ZarfHaltError s p i) \<Rightarrow> after_phase (HaltResponse s p i)
         | Completed resp \<Rightarrow> after_phase (Responded resp))"

text \<open>
  Modelled from the spec: the dispatcher creates the context, matches, runs the
  before-chain and the handler, and finishes.
\<close>

definition dispatch ::
  "'f CompiledRoute list \<Rightarrow> ('f, 's, 'r) link_impl \<Rightarrow> (nat \<rightharpoonup> string) \<Rightarrow>
   (string \<Rightarrow> string option) \<Rightarrow> nat \<Rightarrow> Response \<Rightarrow> 's \<Rightarrow> Request \<Rightarrow> ZarfConfig \<Rightarrow>
   ('f, 's, 'r) dispatched" where
  "dispatch registry impl codes g now resp0 locals0 req config =
     (let ctx = AppContext_new now resp0 locals0 req config
      in case match_route registry (ctx_method ctx) (path ctx) of
           None \<Rightarrow>
             \<lparr>resolution = NotFound, ops_log = [], ran_group_after = [],
              ran_dynamic_after = [], final_ctx = ctx\<rparr>
         | Some (r, params) \<Rightarrow>
             (case run_groups impl codes g params (route_groups r) ctx of
                (Completed None, log, n, ctx1) \<Rightarrow>
                  (case run_chain impl codes g params [route_handler r] ctx1 of
                     (out, log2, ctx2) \<Rightarrow> finish impl g params r out (log @ log2) n ctx2)
              | (out, log, n, ctx1) \<Rightarrow> finish impl g params r out log n ctx1))"

section \<open>Example objects\<close>

text \<open>A response with no headers, a request to a local server, a configuration.\<close>

definition example_response :: Response where
  "example_response = \<lparr>status = 200, statusText = [], headers = Map.empty\<rparr>"

definition example_request :: "string \<Rightarrow> string \<Rightarrow> Request" where
  "example_request m p =
     \<lparr>req_method = m,
      req_url = \<lparr>url_host = ''localhost:3000'', url_pathname = p\<rparr>,
      req_headers = Map.empty\<rparr>"

definition example_config :: "bool option \<Rightarrow> ZarfConfig" where
  "example_config strict = \<lparr>strictRouting = strict, serverHeader = None\<rparr>"

definition example_ctx :: "string \<Rightarrow> string \<Rightarrow> (string, unit) AppContext" where
  "example_ctx m p =
     AppContext_new 0 example_response () (example_request m p) (example_config None)"

text \<open>
  A registry in the manner of the example application: a route \<^verbatim>\<open>/\<close> and a route
  \<^verbatim>\<open>/b\<close>, both under a group with the before-middleware \<^verbatim>\<open>logger\<close> and the
  after-middleware \<^verbatim>\<open>loggerAfter\<close>.
\<close>

definition example_registry :: "string CompiledRoute list" where
  "example_registry =
     [\<lparr>route_method = ''get'', route_segments = [Static []],
       route_groups = [\<lparr>group_before = [''logger''], group_after = [''loggerAfter'']\<rparr>],
       route_handler = ''root'', route_index = 0\<rparr>,
      \<lparr>route_method = ''get'', route_segments = [Static ''b''],
       route_groups = [\<lparr>group_before = [''logger''], group_after = [''loggerAfter'']\<rparr>],
       route_handler = ''boom'', route_index = 1\<rparr>]"

text \<open>
  The example context after \<^verbatim>\<open>setHeader('Vary', 'Accept,Accept ,Accept')\<close>.
\<close>

definition padded_vary_ctx :: "(string, unit) AppContext" where
  "padded_vary_ctx =
     (case setHeader ''Vary'' ''Accept,Accept ,Accept'' (example_ctx ''GET'' ''/'') of
        Inl e \<Rightarrow> example_ctx ''GET'' ''/''
      | Inr c \<Rightarrow> c)"

text \<open>
  Two routes registered in the order \<^verbatim>\<open>/a/*rest\<close>, \<^verbatim>\<open>/a/b\<close>.
\<close>

definition precedence_registry :: "string CompiledRoute list" where
  "precedence_registry =
     [\<lparr>route_method = ''get'', route_segments = [Static ''a'', Wildcard ''rest''],
       route_groups = [], route_handler = ''wild'', route_index = 0\<rparr>,
      \<lparr>route_method = ''get'', route_segments = [Static ''a'', Static ''b''],
       route_groups = [], route_handler = ''exact'', route_index = 1\<rparr>]"

text \<open>
  A link implementation in the manner of the example application: the handler
  \<^verbatim>\<open>root\<close> queues the after-middleware \<^verbatim>\<open>log\<close> and halts with status 200; the
  handler \<^verbatim>\<open>boom\<close> queues it and fails; every other link continues.
\<close>

definition example_impl :: "(string, unit, string) link_impl" where
  "example_impl f params ctx =
     (if f = ''root'' then ([After ''log''], CallHalt 200 (Some (JString ''Hello World!'')))
      else if f = ''boom'' then ([After ''log''], Fault ''boom'')
      else ([], Continue))"

section \<open>Properties of the request context\<close>

subsection \<open>Path normalisation\<close>

text \<open>
  Claim C3. When strict routing is not enabled, the path of a fresh context is the request
  pathname without its final slash if the pathname is not the root and ends in a slash,
  and the pathname itself otherwise (the root included). When strict routing is enabled
  the path is the pathname itself.
\<close>

theorem path_normalization:
  "(strictRouting config \<noteq> Some True \<longrightarrow>
      (\<forall>q. q \<noteq> [] \<and> url_pathname (req_url req) = q @ ''/'' \<longrightarrow>
         path (AppContext_new now resp0 l0 req config) = q) \<and>
      (url_pathname (req_url req) = ''/'' \<or> \<not> endsWith (url_pathname (req_url req)) CHR ''/'' \<longrightarrow>
         path (AppContext_new now resp0 l0 req config) = url_pathname (req_url req)))
   \<and> (strictRouting config = Some True \<longrightarrow>
         path (AppContext_new now resp0 l0 req config) = url_pathname (req_url req))"
  by (auto simp: AppContext_new_def Let_def endsWith_def substring0_def)

text \<open>
  Without strict routing \<^verbatim>\<open>/foo/\<close> is folded to \<^verbatim>\<open>/foo\<close> and the root stays; with
  strict routing \<^verbatim>\<open>/foo/\<close> and \<^verbatim>\<open>/foo\<close> stay distinct.
\<close>

theorem path_normalization_witness:
  "path (AppContext_new 0 example_response () (example_request ''GET'' ''/foo/'') (example_config None)) = ''/foo''
   \<and> path (AppContext_new 0 example_response () (example_request ''GET'' ''/'') (example_config None)) = ''/''
   \<and> path (AppContext_new 0 example_response () (example_request ''GET'' ''/foo/'') (example_config (Some True))) = ''/foo/''
   \<and> path (AppContext_new 0 example_response () (example_request ''GET'' ''/foo'') (example_config (Some True))) = ''/foo''"
  using path_normalization[of "example_config None" "example_request ''GET'' ''/foo/''" 0 example_response "()"]
    path_normalization[of "example_config None" "example_request ''GET'' ''/''" 0 example_response "()"]
    path_normalization[of "example_config (Some True)" "example_request ''GET'' ''/foo/''" 0 example_response "()"]
    path_normalization[of "example_config (Some True)" "example_request ''GET'' ''/foo''" 0 example_response "()"]
  by (simp add: example_config_def example_request_def endsWith_def)

subsection \<open>The method field\<close>

lemma exec_method: "ctx_method (exec g op ctx) = ctx_method ctx"
  by (cases op)
     (auto simp: set_response_def set_status_def set_error_def set_locals_def
        set_body_def setHeader_def setType_def setVary_def redirect_def after_def Let_def
        split: option.splits sum.splits if_splits)

lemma run_ops_method: "ctx_method (run_ops g ops ctx) = ctx_method ctx"
  by (induction ops arbitrary: ctx) (simp_all add: exec_method)

lemma new_method: "ctx_method (AppContext_new now resp0 l0 req config) = toLowerCase (req_method req)"
  by (simp add: AppContext_new_def Let_def)

text \<open>
  Claim C9. The method of a context is the lower-case form of the request's method, and it
  stays so after any sequence of operations on the context; the method \<^verbatim>\<open>GET\<close>
  gives \<^verbatim>\<open>get\<close>.
\<close>

theorem method_lowercase_fixed:
  "ctx_method (run_ops g ops (AppContext_new now resp0 l0 req config)) = toLowerCase (req_method req)
   \<and> toLowerCase ''GET'' = ''get''"
proof
  show "ctx_method (run_ops g ops (AppContext_new now resp0 l0 req config)) = toLowerCase (req_method req)"
    by (simp add: run_ops_method new_method)
  show "toLowerCase ''GET'' = ''get''"
    by code_simp
qed

subsection \<open>The queue of after-middleware\<close>

lemma exec_queue:
  "ctx_middlewares (exec g op ctx) = ctx_middlewares ctx @ after_args [op]"
  by (cases op)
     (auto simp: set_response_def set_status_def set_error_def set_locals_def
        set_body_def setHeader_def setType_def setVary_def redirect_def after_def Let_def
        split: option.splits sum.splits if_splits)

lemma after_args_Cons: "after_args (op # ops) = after_args [op] @ after_args ops"
  by (cases op) simp_all

lemma run_ops_queue:
  "ctx_middlewares (run_ops g ops ctx) = ctx_middlewares ctx @ after_args ops"
proof (induction ops arbitrary: ctx)
  case Nil
  show ?case by simp
next
  case (Cons op ops)
  have "ctx_middlewares (run_ops g (op # ops) ctx) =
          (ctx_middlewares ctx @ after_args [op]) @ after_args ops"
    by (simp add: Cons.IH exec_queue del: after_args.simps)
  also have "\<dots> = ctx_middlewares ctx @ after_args (op # ops)"
    using after_args_Cons[of op ops] by simp
  finally show ?case .
qed

lemma after_args_map_After: "after_args (map After fs) = fs"
  by (induction fs) simp_all

lemma new_queue_empty: "ctx_middlewares (AppContext_new now resp0 l0 req config) = []"
  by (simp add: AppContext_new_def Let_def)

text \<open>
  Claim C7. After any sequence of operations on a context, the queue is the queue before
  followed by the arguments of the calls of \<^verbatim>\<open>after\<close>, in call order: no other
  operation adds, removes or reorders an entry. On a fresh context the calls
  \<^verbatim>\<open>after(f1)\<close>, ..., \<^verbatim>\<open>after(fn)\<close> leave exactly the list of the \<open>fi\<close>.
\<close>

theorem after_queue_ordered:
  "afterMiddlewares (run_ops g ops ctx) = afterMiddlewares ctx @ after_args ops
   \<and> afterMiddlewares (run_ops g (map After fs) (AppContext_new now resp0 l0 req config)) = fs"
  by (simp add: afterMiddlewares_def run_ops_queue after_args_map_After new_queue_empty)

subsection \<open>Sending on a HEAD request\<close>

text \<open>
  Claim C8. On a context whose request method is \<^verbatim>\<open>HEAD\<close>, \<^verbatim>\<open>send\<close> ignores the
  body and its second argument and returns what \<^verbatim>\<open>head()\<close> returns: the head helper
  applied to the status, status text and headers of the current response, and to nothing
  else.
\<close>

theorem send_head_request:
  assumes "req_method (ctx_request ctx) = ''HEAD''"
  shows "ctx_send head_fn send_fn ctx b args = ctx_head head_fn ctx empty_init
         \<and> ctx_head head_fn ctx empty_init = head_fn (getResponseInit ctx)
         \<and> (\<forall>r. ctx_response ctx = Some r \<longrightarrow>
               getResponseInit ctx =
                 \<lparr>init_headers = Some (headers r), init_status = Some (status r),
                  init_statusText = Some (statusText r)\<rparr>)"
  using assms
  by (simp add: ctx_send_def ctx_head_def getResponseInit_def spread_def or_else_def
        empty_init_def split: option.splits)

theorem send_head_request_witness:
  "ctx_send (\<lambda>i. (None, i)) (\<lambda>b i. (Some b, i)) (example_ctx ''HEAD'' ''/send'')
       (JString ''file'') empty_init =
     (None, \<lparr>init_headers = Some Map.empty, init_status = Some 200, init_statusText = Some []\<rparr>)"
  using send_head_request[of "example_ctx ''HEAD'' ''/send''" "\<lambda>i. (None, i)"
      "\<lambda>b i. (Some b, i)" "JString ''file''" empty_init]
  by (simp add: example_ctx_def AppContext_new_def example_request_def example_config_def
        example_response_def getResponseInit_def Let_def)

subsection \<open>Halt\<close>

text \<open>
  Claim C2, amended. For every status \<open>s\<close> and body argument \<open>b\<close>, \<^verbatim>\<open>halt(s, b)\<close>
  never returns normally: it throws the halt signal, which is not one of the other
  errors. The signal carries the status \<open>s\<close>, and response metadata with the status
  \<open>s\<close> and the headers and status text of the current response. Its body is exactly
  \<open>b\<close> when \<open>b\<close> is truthy, and the status text of \<open>s\<close> from the table of
  status codes when \<open>b\<close> is not supplied or is falsy. A link of the chain that halts
  ends the chain with exactly this signal, and from the signal the dispatcher makes the
  final response: the halt response with the signal's status, body and metadata.
\<close>

theorem halt_signal:
  "\<exists>p i. halt codes ctx s b = Inl (ZarfHaltError s p i)
     \<and> init_status i = Some s
     \<and> (\<forall>r. ctx_response ctx = Some r \<longrightarrow>
           init_headers i = Some (headers r) \<and> init_statusText i = Some (statusText r))
     \<and> (\<forall>v. b = Some v \<and> truthy v \<longrightarrow> p = Some v)
     \<and> (b = None \<or> (\<exists>v. b = Some v \<and> \<not> truthy v) \<longrightarrow> p = map_option JString (codes s))
     \<and> (\<forall>f fs ops c0. impl f params c0 = (ops, CallHalt s b) \<and> run_ops g ops c0 = ctx \<longrightarrow>
           run_chain impl codes g params (f # fs) c0 = (Threw (ZarfHaltError s p i), ops, ctx))
     \<and> resolution (finish impl g params rt (Threw (ZarfHaltError s p i)) log n ctx) =
           HaltResponse s p i"
proof -
  define p where "p = halt_body codes s b"
  define i where "i = spread (getResponseInit ctx) (empty_init\<lparr>init_status := Some s\<rparr>)"
  have h: "halt codes ctx s b = Inl (ZarfHaltError s p i)"
    by (simp add: halt_def p_def i_def)
  have st: "init_status i = Some s"
    by (simp add: i_def spread_def or_else_def empty_init_def)
  have hd: "\<forall>r. ctx_response ctx = Some r \<longrightarrow>
           init_headers i = Some (headers r) \<and> init_statusText i = Some (statusText r)"
    by (simp add: i_def getResponseInit_def spread_def or_else_def empty_init_def)
  have tr: "\<forall>v. b = Some v \<and> truthy v \<longrightarrow> p = Some v"
    by (simp add: p_def halt_body_def)
  have fa: "b = None \<or> (\<exists>v. b = Some v \<and> \<not> truthy v) \<longrightarrow> p = map_option JString (codes s)"
    by (auto simp: p_def halt_body_def)
  have ch: "\<forall>f fs ops c0. impl f params c0 = (ops, CallHalt s b) \<and> run_ops g ops c0 = ctx \<longrightarrow>
           run_chain impl codes g params (f # fs) c0 = (Threw (ZarfHaltError s p i), ops, ctx)"
    using h by auto
  have fi: "resolution (finish impl g params rt (Threw (ZarfHaltError s p i)) log n ctx) =
           HaltResponse s p i"
    by (simp add: finish_def Let_def split: prod.splits)
  from h st hd tr fa ch fi show ?thesis by blast
qed

theorem halt_signal_witness:
  "halt [401 \<mapsto> ''Unauthorized''] (example_ctx ''GET'' ''/authorized'') 401
       (Some (JString ''You shall not pass'')) =
     Inl (ZarfHaltError 401 (Some (JString ''You shall not pass''))
            \<lparr>init_headers = Some Map.empty, init_status = Some 401, init_statusText = Some []\<rparr>)
   \<and> halt [401 \<mapsto> ''Unauthorized''] (example_ctx ''GET'' ''/authorized'') 401 None =
     Inl (ZarfHaltError 401 (Some (JString ''Unauthorized''))
            \<lparr>init_headers = Some Map.empty, init_status = Some 401, init_statusText = Some []\<rparr>)
   \<and> halt [401 \<mapsto> ''Unauthorized''] (example_ctx ''GET'' ''/authorized'') 401 (Some (JNumber 0)) =
     Inl (ZarfHaltError 401 (Some (JString ''Unauthorized''))
            \<lparr>init_headers = Some Map.empty, init_status = Some 401, init_statusText = Some []\<rparr>)
   \<and> resolution (finish example_impl (\<lambda>t. None) [] (example_registry ! 0)
          (Threw (ZarfHaltError 401 (Some (JString ''You shall not pass''))
            \<lparr>init_headers = Some Map.empty, init_status = Some 401, init_statusText = Some []\<rparr>))
          [] 0 (example_ctx ''GET'' ''/authorized'')) =
       HaltResponse 401 (Some (JString ''You shall not pass''))
         \<lparr>init_headers = Some Map.empty, init_status = Some 401, init_statusText = Some []\<rparr>"
  using halt_signal[where codes = "[401 \<mapsto> ''Unauthorized'']"
      and ctx = "example_ctx ''GET'' ''/authorized''" and s = 401
      and b = "Some (JString ''You shall not pass'')" and impl = example_impl
      and g = "\<lambda>t. None" and params = "[]" and rt = "example_registry ! 0"
      and log = "[]" and n = 0]
    halt_signal[where codes = "[401 \<mapsto> ''Unauthorized'']"
      and ctx = "example_ctx ''GET'' ''/authorized''" and s = 401 and b = None]
    halt_signal[where codes = "[401 \<mapsto> ''Unauthorized'']"
      and ctx = "example_ctx ''GET'' ''/authorized''" and s = 401 and b = "Some (JNumber 0)"]
  by (auto simp: example_ctx_def AppContext_new_def example_request_def example_config_def
        example_response_def finish_def afterMiddlewares_def Let_def halt_def halt_body_def
        getResponseInit_def spread_def or_else_def empty_init_def)

text \<open>
  As first stated, the claim promises the supplied body for every body. The empty string
  is a body the signal does not carry: \<^verbatim>\<open>halt(200, '')\<close> carries the status text.
\<close>

theorem halt_empty_body_counterexample:
  "halt_payload (projl (halt [200 \<mapsto> ''OK''] (example_ctx ''GET'' ''/'') 200 (Some (JString [])))) =
     Some (JString ''OK'')
   \<and> halt_payload (projl (halt [200 \<mapsto> ''OK''] (example_ctx ''GET'' ''/'') 200 (Some (JString [])))) \<noteq>
     Some (JString [])"
  by (simp add: halt_def halt_body_def)

subsection \<open>The Vary header\<close>

lemma split_on_nonempty: "split_on c s \<noteq> []"
  by (induction s) (auto split: list.splits)

lemma split_fields_free: "f \<in> set (split_on c s) \<Longrightarrow> c \<notin> set f"
  by (induction s arbitrary: f) (auto split: if_splits list.splits)

lemma split_on_free: "c \<notin> set x \<Longrightarrow> split_on c x = [x]"
  by (induction x) auto

lemma split_on_append_sep:
  "c \<notin> set x \<Longrightarrow> split_on c (x @ c # r) = x # split_on c r"
  by (induction x) auto

lemma split_join:
  "xs \<noteq> [] \<Longrightarrow> \<forall>x\<in>set xs. c \<notin> set x \<Longrightarrow> split_on c (join_with c xs) = xs"
proof (induction c xs rule: join_with.induct)
  case (1 c) then show ?case by simp
next
  case (2 c x) then show ?case by (simp add: split_on_free)
next
  case (3 c x y ys)
  then show ?case by (simp add: split_on_append_sep)
qed

lemma split_hd_no_start:
  "\<not> starts_with_space h \<Longrightarrow> \<not> starts_with_space (hd (split_on c h))"
  by (cases h) (auto simp: starts_with_space_def split: list.splits)

lemma join_no_start:
  "xs \<noteq> [] \<Longrightarrow> \<not> starts_with_space (hd xs) \<Longrightarrow> \<not> http_whitespace c \<Longrightarrow>
     \<not> starts_with_space (join_with c xs)"
proof (induction c xs rule: join_with.induct)
  case (1 c) then show ?case by simp
next
  case (2 c x) then show ?case by simp
next
  case (3 c x y ys)
  then show ?case by (cases x) (auto simp: starts_with_space_def)
qed

lemma join_no_end:
  "xs \<noteq> [] \<Longrightarrow> \<not> ends_with_space (last xs) \<Longrightarrow> \<not> http_whitespace c \<Longrightarrow>
     \<not> ends_with_space (join_with c xs)"
proof (induction c xs rule: join_with.induct)
  case (1 c) then show ?case by simp
next
  case (2 c x) then show ?case by simp
next
  case (3 c x y ys)
  then show ?case by (auto simp: ends_with_space_def)
qed

lemma dropWhile_id: "xs = [] \<or> \<not> P (hd xs) \<Longrightarrow> dropWhile P xs = xs"
  by (cases xs) auto

lemma trim_value_id:
  assumes "\<not> starts_with_space s" "\<not> ends_with_space s"
  shows "trim_value s = s"
proof -
  from assms(1) have a: "dropWhile http_whitespace s = s"
    by (intro dropWhile_id) (auto simp: starts_with_space_def)
  from assms(2) have b: "dropWhile http_whitespace (rev s) = rev s"
    by (intro dropWhile_id) (auto simp: ends_with_space_def hd_rev)
  show ?thesis by (simp add: trim_value_def a b)
qed

lemma foldl_set_add_distinct:
  "distinct acc \<Longrightarrow> distinct (foldl set_add acc xs)"
  by (induction xs arbitrary: acc) (auto simp: set_add_def)

lemma foldl_set_add_set:
  "set (foldl set_add acc xs) = set acc \<union> set xs"
  by (induction xs arbitrary: acc) (auto simp: set_add_def)

lemma foldl_set_add_absorb:
  "set xs \<subseteq> set acc \<Longrightarrow> foldl set_add acc xs = acc"
  by (induction xs arbitrary: acc) (auto simp: set_add_def)

lemma foldl_set_add_fresh:
  "distinct (acc @ xs) \<Longrightarrow> foldl set_add acc xs = acc @ xs"
  by (induction xs arbitrary: acc) (auto simp: set_add_def)

lemma foldl_set_add_prefix: "\<exists>t. foldl set_add acc xs = acc @ t"
proof (induction xs arbitrary: acc)
  case Nil
  show ?case by simp
next
  case (Cons x xs)
  from Cons[of "set_add acc x"] obtain t where
    t: "foldl set_add (set_add acc x) xs = set_add acc x @ t" by blast
  have "\<exists>u. set_add acc x = acc @ u" by (simp add: set_add_def)
  then obtain u where "set_add acc x = acc @ u" by blast
  with t have "foldl set_add acc (x # xs) = acc @ (u @ t)" by simp
  then show ?case by blast
qed

lemma new_Set_distinct: "distinct (new_Set xs)"
  by (simp add: new_Set_def foldl_set_add_distinct)

lemma new_Set_set: "set (new_Set xs) = set xs"
  by (simp add: new_Set_def foldl_set_add_set)

lemma new_Set_absorb:
  "distinct l \<Longrightarrow> set vs \<subseteq> set l \<Longrightarrow> new_Set (l @ vs) = l"
  using foldl_set_add_fresh[of "[]" l]
  by (simp add: new_Set_def foldl_set_add_absorb)

lemma new_Set_nonempty: "xs \<noteq> [] \<Longrightarrow> new_Set xs \<noteq> []"
  using new_Set_set[of xs] by (metis set_empty)

lemma new_Set_hd: "xs \<noteq> [] \<Longrightarrow> hd (new_Set (xs @ ys)) = hd xs"
proof -
  assume "xs \<noteq> []"
  then obtain x rest where xs: "xs = x # rest" by (cases xs) auto
  from foldl_set_add_prefix[of "[x]" "rest @ ys"] obtain t where
    "foldl set_add [x] (rest @ ys) = [x] @ t" by blast
  then show ?thesis by (simp add: new_Set_def xs set_add_def)
qed

lemma new_Set_last: "xs \<noteq> [] \<Longrightarrow> last (new_Set xs) \<in> set xs"
  using new_Set_nonempty[of xs] new_Set_set[of xs] last_in_set[of "new_Set xs"] by blast

lemma lower_Vary: "toLowerCase ''Vary'' = ''vary''"
  by code_simp

lemma valid_Vary: "valid_name ''Vary''"
  by code_simp

lemma comma_no_space: "\<not> http_whitespace CHR '',''"
  by (simp add: http_whitespace_def)

lemma setHeader_Vary_Inr:
  assumes "ctx_response ctx = Some r" "setHeader ''Vary'' v ctx = Inr c"
  shows "c = ctx\<lparr>ctx_response := Some (r\<lparr>headers := (headers r)(''vary'' \<mapsto> trim_value v)\<rparr>)\<rparr>"
    and "valid_value (trim_value v)"
  using assms
  by (auto simp: setHeader_def Headers_set_def lower_Vary valid_Vary Let_def split: if_splits)

lemma setHeader_Vary_ok:
  assumes "ctx_response ctx = Some r" "valid_value (trim_value v)"
  shows "setHeader ''Vary'' v ctx =
           Inr (ctx\<lparr>ctx_response := Some (r\<lparr>headers := (headers r)(''vary'' \<mapsto> trim_value v)\<rparr>)\<rparr>)"
  using assms
  by (simp add: setHeader_def Headers_set_def lower_Vary valid_Vary Let_def)

lemma vary_list_clean:
  assumes vals: "\<forall>v\<in>set vs. CHR '','' \<notin> set v \<and> \<not> ends_with_space v"
    and hdr: "\<not> starts_with_space h" "\<forall>f\<in>set (split_on CHR '','' h). \<not> ends_with_space f"
    and l_def: "l = new_Set (split_on CHR '','' h @ vs)"
  shows "l \<noteq> []" and "\<forall>x\<in>set l. CHR '','' \<notin> set x" and "\<forall>x\<in>set l. \<not> ends_with_space x"
    and "distinct l" and "set vs \<subseteq> set l"
    and "trim_value (join_with CHR '','' l) = join_with CHR '','' l"
    and "split_on CHR '','' (join_with CHR '','' l) = l"
    and "\<not> starts_with_space (join_with CHR '','' l)"
proof -
  show ne: "l \<noteq> []"
    unfolding l_def by (rule new_Set_nonempty) (simp add: split_on_nonempty)
  show fr: "\<forall>x\<in>set l. CHR '','' \<notin> set x"
    unfolding l_def using vals by (auto simp: new_Set_set dest: split_fields_free)
  show en: "\<forall>x\<in>set l. \<not> ends_with_space x"
    unfolding l_def using vals hdr(2) by (auto simp: new_Set_set)
  show "distinct l" unfolding l_def by (rule new_Set_distinct)
  show "set vs \<subseteq> set l" unfolding l_def by (simp add: new_Set_set)
  have "hd l = hd (split_on CHR '','' h)"
    unfolding l_def by (rule new_Set_hd) (rule split_on_nonempty)
  with hdr(1) have "\<not> starts_with_space (hd l)" by (simp add: split_hd_no_start)
  with ne show st: "\<not> starts_with_space (join_with CHR '','' l)"
    by (intro join_no_start comma_no_space)
  from ne en have "\<not> ends_with_space (last l)" by simp
  with ne have "\<not> ends_with_space (join_with CHR '','' l)"
    by (intro join_no_end comma_no_space)
  with st show "trim_value (join_with CHR '','' l) = join_with CHR '','' l"
    by (rule trim_value_id)
  from ne fr show "split_on CHR '','' (join_with CHR '','' l) = l" by (rule split_join)
qed

text \<open>
  Claim C10, amended. Let no value of the list hold a comma or end in white space, and
  let the Vary header of the response, if there is one, not begin with white space and
  have no comma-separated field that ends in white space (so it is for a response without
  the header and for a header that \<^verbatim>\<open>setVary\<close> stored). Then after a call of
  \<^verbatim>\<open>setVary\<close> that the platform accepts, a second call with the same values leaves
  the context, and so the header, unchanged; when the call stored the header, the
  comma-separated fields of the header are pairwise distinct; and the header is again one
  that does not begin with white space and has no field ending in white space.
\<close>

theorem setVary_idempotent:
  assumes vals: "\<forall>v\<in>set vs. CHR '','' \<notin> set v \<and> \<not> ends_with_space v"
    and hdr: "\<not> starts_with_space (vary_of ctx) \<and>
              (\<forall>f\<in>set (split_on CHR '','' (vary_of ctx)). \<not> ends_with_space f)"
    and ok: "setVary vs ctx = Inr c"
  shows "setVary vs c = Inr c
         \<and> (vs \<noteq> [] \<and> ctx_response ctx \<noteq> None \<longrightarrow>
              distinct (split_on CHR '','' (vary_of c)))
         \<and> \<not> starts_with_space (vary_of c)
         \<and> (\<forall>f\<in>set (split_on CHR '','' (vary_of c)). \<not> ends_with_space f)"
proof (cases "vs = [] \<or> ctx_response ctx = None")
  case True
  with ok have "c = ctx" by (auto simp: setVary_def setHeader_def Let_def split: if_splits)
  with True ok hdr show ?thesis by auto
next
  case False
  then obtain r where r: "ctx_response ctx = Some r" and ne: "vs \<noteq> []" by auto
  define l where "l = new_Set (split_on CHR '','' (vary_of ctx) @ vs)"
  define v where "v = join_with CHR '','' l"
  note cl = vary_list_clean[OF vals conjunct1[OF hdr] conjunct2[OF hdr] l_def]
  have tv: "trim_value v = v" unfolding v_def by (rule cl(6))
  have sv: "split_on CHR '','' v = l" unfolding v_def by (rule cl(7))
  have step: "setVary vs ctx = setHeader ''Vary'' v ctx"
    using ne by (simp add: setVary_def l_def v_def)
  from setHeader_Vary_Inr[OF r ok[unfolded step]] tv
  have c: "c = ctx\<lparr>ctx_response := Some (r\<lparr>headers := (headers r)(''vary'' \<mapsto> v)\<rparr>)\<rparr>"
    and valid: "valid_value (trim_value v)" by simp_all
  have rc: "ctx_response c = Some (r\<lparr>headers := (headers r)(''vary'' \<mapsto> v)\<rparr>)"
    by (simp add: c)
  have vc: "vary_of c = v"
    by (simp add: vary_of_def rc Headers_get_def lower_Vary)
  have l2: "new_Set (split_on CHR '','' (vary_of c) @ vs) = l"
    using cl(4) cl(5) by (simp add: vc sv new_Set_absorb)
  have "setVary vs c = setHeader ''Vary'' v c"
    using ne by (simp add: setVary_def l2 v_def)
  also have "\<dots> = Inr c"
    using setHeader_Vary_ok[OF rc valid] by (simp add: tv c)
  finally have idem: "setVary vs c = Inr c" .
  have "distinct (split_on CHR '','' (vary_of c))" by (simp add: vc sv cl(4))
  moreover have "\<not> starts_with_space (vary_of c)" using cl(8) by (simp add: vc v_def)
  moreover have "\<forall>f\<in>set (split_on CHR '','' (vary_of c)). \<not> ends_with_space f"
    using cl(3) by (simp add: vc sv)
  ultimately show ?thesis using idem by simp
qed

lemma example_vary_empty: "vary_of (example_ctx ''GET'' ''/'') = []"
  by (simp add: vary_of_def example_ctx_def AppContext_new_def example_config_def
        example_response_def Headers_get_def Let_def)

lemma example_response_present:
  "ctx_response (example_ctx ''GET'' ''/'') = Some example_response"
  by (simp add: example_ctx_def AppContext_new_def example_config_def Let_def)

lemma trim_accept_origin: "trim_value '',Accept,Origin'' = '',Accept,Origin''"
  by code_simp

lemma valid_accept_origin: "valid_value '',Accept,Origin''"
  by code_simp

lemma example_setVary:
  "setVary [''Accept'', ''Origin''] (example_ctx ''GET'' ''/'') =
     Inr ((example_ctx ''GET'' ''/'')
            \<lparr>ctx_response := Some (example_response
                \<lparr>headers := (headers example_response)(''vary'' \<mapsto> '',Accept,Origin'')\<rparr>)\<rparr>)"
proof -
  have "join_with CHR '','' (new_Set (split_on CHR '','' [] @ [''Accept'', ''Origin''])) =
          '',Accept,Origin''"
    by (simp add: new_Set_def set_add_def)
  then have "setVary [''Accept'', ''Origin''] (example_ctx ''GET'' ''/'') =
          setHeader ''Vary'' '',Accept,Origin'' (example_ctx ''GET'' ''/'')"
    by (simp add: setVary_def example_vary_empty)
  also have "\<dots> = Inr ((example_ctx ''GET'' ''/'')
            \<lparr>ctx_response := Some (example_response
                \<lparr>headers := (headers example_response)(''vary'' \<mapsto> '',Accept,Origin'')\<rparr>)\<rparr>)"
    using setHeader_Vary_ok[OF example_response_present, of "'',Accept,Origin''"]
    by (simp add: trim_accept_origin valid_accept_origin)
  finally show ?thesis .
qed

theorem setVary_idempotent_witness:
  "setVary [''Accept'', ''Origin'']
       ((example_ctx ''GET'' ''/'')
            \<lparr>ctx_response := Some (example_response
                \<lparr>headers := (headers example_response)(''vary'' \<mapsto> '',Accept,Origin'')\<rparr>)\<rparr>) =
     setVary [''Accept'', ''Origin''] (example_ctx ''GET'' ''/'')
   \<and> distinct (split_on CHR '','' (vary_of ((example_ctx ''GET'' ''/'')
            \<lparr>ctx_response := Some (example_response
                \<lparr>headers := (headers example_response)(''vary'' \<mapsto> '',Accept,Origin'')\<rparr>)\<rparr>)))"
proof -
  have vals: "\<forall>v\<in>set [''Accept'', ''Origin'']. CHR '','' \<notin> set v \<and> \<not> ends_with_space v"
    by (simp add: ends_with_space_def http_whitespace_def)
  have hdr: "\<not> starts_with_space (vary_of (example_ctx ''GET'' ''/'')) \<and>
      (\<forall>f\<in>set (split_on CHR '','' (vary_of (example_ctx ''GET'' ''/''))). \<not> ends_with_space f)"
    by (simp add: example_vary_empty starts_with_space_def ends_with_space_def)
  from setVary_idempotent[OF vals hdr example_setVary] show ?thesis
    by (simp add: example_setVary example_response_present)
qed

lemma trim_padded: "trim_value ''Accept,Accept ,Accept'' = ''Accept,Accept ,Accept''"
  by code_simp

lemma valid_padded: "valid_value ''Accept,Accept ,Accept''"
  by code_simp

lemma padded_vary: "vary_of padded_vary_ctx = ''Accept,Accept ,Accept''"
  using setHeader_Vary_ok[OF example_response_present, of "''Accept,Accept ,Accept''"]
  by (simp add: padded_vary_ctx_def trim_padded valid_padded vary_of_def Headers_get_def lower_Vary)

lemma padded_response:
  "ctx_response padded_vary_ctx =
     Some (example_response
            \<lparr>headers := (headers example_response)(''vary'' \<mapsto> ''Accept,Accept ,Accept'')\<rparr>)"
  using setHeader_Vary_ok[OF example_response_present, of "''Accept,Accept ,Accept''"]
  by (simp add: padded_vary_ctx_def trim_padded valid_padded)

lemma setVary_step:
  assumes "ctx_response c = Some r" "vary_of c = h" "vs \<noteq> []"
    and "join_with CHR '','' (new_Set (split_on CHR '','' h @ vs)) = j"
    and "trim_value j = t" "valid_value t"
  shows "\<exists>c'. setVary vs c = Inr c' \<and> vary_of c' = t \<and>
           ctx_response c' = Some (r\<lparr>headers := (headers r)(''vary'' \<mapsto> t)\<rparr>)"
proof -
  have "setVary vs c = setHeader ''Vary'' j c"
    using assms(2,3,4) by (simp add: setVary_def)
  also have "\<dots> = Inr (c\<lparr>ctx_response := Some (r\<lparr>headers := (headers r)(''vary'' \<mapsto> t)\<rparr>)\<rparr>)"
    using setHeader_Vary_ok[OF assms(1), of j] assms(5,6) by simp
  finally show ?thesis
    by (simp add: vary_of_def Headers_get_def lower_Vary)
qed

lemma vary_twice_steps:
  assumes r: "ctx_response c = Some r" and h: "vary_of c = h" and ne: "vs \<noteq> []"
    and j1: "join_with CHR '','' (new_Set (split_on CHR '','' h @ vs)) = j1"
    and t1: "trim_value j1 = t1" "valid_value t1"
    and j2: "join_with CHR '','' (new_Set (split_on CHR '','' t1 @ vs)) = j2"
    and t2: "trim_value j2 = t2" "valid_value t2"
  shows "vary_twice vs c = Some (t1, t2)"
proof -
  from setVary_step[OF r h ne j1 t1] obtain c1 where
    c1: "setVary vs c = Inr c1" "vary_of c1 = t1"
      "ctx_response c1 = Some (r\<lparr>headers := (headers r)(''vary'' \<mapsto> t1)\<rparr>)" by blast
  from setVary_step[OF c1(3) c1(2) ne j2 t2] obtain c2 where
    c2: "setVary vs c1 = Inr c2" "vary_of c2 = t2" by blast
  show ?thesis by (simp add: vary_twice_def c1 c2)
qed

lemma trim_examples:
  "trim_value ''Accept,Accept '' = ''Accept,Accept''"
  "trim_value ''Accept'' = ''Accept''"
  "trim_value '',Accept '' = '',Accept''"
  "trim_value '',Accept,Accept '' = '',Accept,Accept''"
  "trim_value '',a,b'' = '',a,b''"
  "trim_value '',a,b,a,b'' = '',a,b,a,b''"
  by code_simp+

lemma valid_examples:
  "valid_value ''Accept,Accept''"
  "valid_value ''Accept''"
  "valid_value '',Accept''"
  "valid_value '',Accept,Accept''"
  "valid_value '',a,b''"
  "valid_value '',a,b,a,b''"
  by code_simp+

text \<open>
  As first stated, the claim is for every list of values and every response. On a
  response whose Vary header is \<^verbatim>\<open>Accept,Accept ,Accept\<close>, \<^verbatim>\<open>setVary('Accept')\<close>
  stores \<^verbatim>\<open>Accept,Accept\<close>, which has a field twice, and the second call stores
  \<^verbatim>\<open>Accept\<close>. On a response without the header, a value that ends in a space and a
  value that holds a comma are each stored a second time by the second call.
\<close>

theorem setVary_padded_counterexample:
  "vary_twice [''Accept''] padded_vary_ctx = Some (''Accept,Accept'', ''Accept'')
   \<and> \<not> distinct (split_on CHR '','' ''Accept,Accept'')
   \<and> vary_twice [''Accept ''] (example_ctx ''GET'' ''/'') = Some ('',Accept'', '',Accept,Accept'')
   \<and> vary_twice [''a,b''] (example_ctx ''GET'' ''/'') = Some ('',a,b'', '',a,b,a,b'')"
proof (intro conjI)
  show "vary_twice [''Accept''] padded_vary_ctx = Some (''Accept,Accept'', ''Accept'')"
    by (rule vary_twice_steps[where ?j1.0 = "''Accept,Accept ''" and ?j2.0 = "''Accept''",
          OF padded_response padded_vary])
       (simp_all add: new_Set_def set_add_def trim_examples valid_examples)
  show "\<not> distinct (split_on CHR '','' ''Accept,Accept'')"
    by simp
  show "vary_twice [''Accept ''] (example_ctx ''GET'' ''/'') = Some ('',Accept'', '',Accept,Accept'')"
    by (rule vary_twice_steps[where ?j1.0 = "'',Accept ''" and ?j2.0 = "'',Accept,Accept ''",
          OF example_response_present example_vary_empty])
       (simp_all add: new_Set_def set_add_def trim_examples valid_examples)
  show "vary_twice [''a,b''] (example_ctx ''GET'' ''/'') = Some ('',a,b'', '',a,b,a,b'')"
    by (rule vary_twice_steps[where ?j1.0 = "'',a,b''" and ?j2.0 = "'',a,b,a,b''",
          OF example_response_present example_vary_empty])
       (simp_all add: new_Set_def set_add_def trim_examples valid_examples)
qed

section \<open>Properties of the matcher\<close>

lemma match_routes_first:
  "match_routes m segs rs = Some (r, bs) \<Longrightarrow>
     \<exists>i<length rs. rs ! i = r \<and> route_method r = m \<and>
        match_segs (route_segments r) segs = Some bs \<and>
        (\<forall>j<i. \<not> route_matches m segs (rs ! j))"
proof (induction rs)
  case Nil
  then show ?case by simp
next
  case (Cons a rs)
  show ?case
  proof (cases "route_matches m segs a")
    case True
    with Cons.prems have "a = r" "route_method r = m" "match_segs (route_segments r) segs = Some bs"
      by (auto simp: route_matches_def split: if_splits option.splits)
    then have "(a # rs) ! 0 = r \<and> route_method r = m \<and>
        match_segs (route_segments r) segs = Some bs \<and>
        (\<forall>j<0. \<not> route_matches m segs ((a # rs) ! j))" by simp
    then show ?thesis by blast
  next
    case False
    with Cons.prems have "match_routes m segs rs = Some (r, bs)"
      by (auto simp: route_matches_def split: if_splits option.splits)
    from Cons.IH[OF this] obtain i where i: "i < length rs" "rs ! i = r" "route_method r = m"
      "match_segs (route_segments r) segs = Some bs"
      "\<forall>j<i. \<not> route_matches m segs (rs ! j)" by blast
    have "\<forall>j<Suc i. \<not> route_matches m segs ((a # rs) ! j)"
    proof (intro allI impI)
      fix j assume "j < Suc i"
      then show "\<not> route_matches m segs ((a # rs) ! j)"
        using False i(5) by (cases j) auto
    qed
    with i have "Suc i < length (a # rs) \<and> (a # rs) ! Suc i = r \<and> route_method r = m \<and>
        match_segs (route_segments r) segs = Some bs \<and>
        (\<forall>j<Suc i. \<not> route_matches m segs ((a # rs) ! j))" by simp
    then show ?thesis by blast
  qed
qed

lemma match_routes_none:
  "match_routes m segs rs = None \<Longrightarrow> \<forall>r\<in>set rs. \<not> route_matches m segs r"
  by (induction rs) (auto simp: route_matches_def split: if_splits option.splits)

lemma example_compile_wild: "compile_pattern ''/a/*rest'' = Inr [Static ''a'', Wildcard ''rest'']"
  by (simp add: compile_pattern_def path_segments_def compile_segment_def endsWith_def Let_def)

lemma example_compile_ab: "compile_pattern ''/a/b'' = Inr [Static ''a'', Static ''b'']"
  by (simp add: compile_pattern_def path_segments_def compile_segment_def endsWith_def Let_def)

lemma example_segments_ab: "path_segments ''/a/b'' = [''a'', ''b'']"
  by (simp add: path_segments_def)

text \<open>
  Claim C1. The matcher returns the first route in registration order that has the
  request's method and whose pattern matches the request path: no route before it
  matches, and when it returns nothing no route matches. With \<^verbatim>\<open>/a/*rest\<close>
  registered before \<^verbatim>\<open>/a/b\<close>, a request to \<^verbatim>\<open>/a/b\<close> is given to the wildcard
  route, although the second route matches it too.
\<close>

theorem first_match_wins:
  "(\<forall>r bs. match_route registry m p = Some (r, bs) \<longrightarrow>
      (\<exists>i<length registry. registry ! i = r \<and> route_method r = m \<and>
          match_segs (route_segments r) (path_segments p) = Some bs \<and>
          (\<forall>j<i. \<not> route_matches m (path_segments p) (registry ! j))))
   \<and> (match_route registry m p = None \<longrightarrow>
        (\<forall>r\<in>set registry. \<not> route_matches m (path_segments p) r))
   \<and> (\<exists>reg. register_all [] [(''get'', ''/a/*rest'', h1), (''get'', ''/a/b'', h2)] = Inr reg
        \<and> length reg = 2
        \<and> route_segments (reg ! 0) = [Static ''a'', Wildcard ''rest'']
        \<and> route_segments (reg ! 1) = [Static ''a'', Static ''b'']
        \<and> route_matches ''get'' (path_segments ''/a/b'') (reg ! 1)
        \<and> match_route reg ''get'' ''/a/b'' = Some (reg ! 0, [(''rest'', Some ''b'')]))"
proof (intro conjI)
  show "\<forall>r bs. match_route registry m p = Some (r, bs) \<longrightarrow>
      (\<exists>i<length registry. registry ! i = r \<and> route_method r = m \<and>
          match_segs (route_segments r) (path_segments p) = Some bs \<and>
          (\<forall>j<i. \<not> route_matches m (path_segments p) (registry ! j)))"
    unfolding match_route_def by (intro allI impI) (rule match_routes_first)
  show "match_route registry m p = None \<longrightarrow>
        (\<forall>r\<in>set registry. \<not> route_matches m (path_segments p) r)"
    unfolding match_route_def by (intro impI) (rule match_routes_none)
  show "\<exists>reg. register_all [] [(''get'', ''/a/*rest'', h1), (''get'', ''/a/b'', h2)] = Inr reg
        \<and> length reg = 2
        \<and> route_segments (reg ! 0) = [Static ''a'', Wildcard ''rest'']
        \<and> route_segments (reg ! 1) = [Static ''a'', Static ''b'']
        \<and> route_matches ''get'' (path_segments ''/a/b'') (reg ! 1)
        \<and> match_route reg ''get'' ''/a/b'' = Some (reg ! 0, [(''rest'', Some ''b'')])"
    by (simp add: register_def example_compile_wild example_compile_ab match_route_def
          example_segments_ab route_matches_def)
qed

theorem first_match_wins_witness:
  "match_route precedence_registry ''get'' ''/a/b'' =
     Some (precedence_registry ! 0, [(''rest'', Some ''b'')])
   \<and> route_handler (precedence_registry ! 0) = ''wild''
   \<and> route_matches ''get'' (path_segments ''/a/b'') (precedence_registry ! 1)"
  using first_match_wins[of precedence_registry "''get''" "''/a/b''"]
  by (simp add: precedence_registry_def match_route_def example_segments_ab route_matches_def)

subsection \<open>Wildcards\<close>

lemma shortest_run_Some:
  "shortest_run ok run segs = Some (run', rest) \<Longrightarrow>
     \<exists>k\<le>length segs. run' = run @ take k segs \<and> rest = drop k segs \<and> run' \<noteq> [] \<and> ok rest"
proof (induction segs arbitrary: run)
  case Nil
  then show ?case by (auto split: if_splits)
next
  case (Cons s ss)
  show ?case
  proof (cases "run \<noteq> [] \<and> ok (s # ss)")
    case True
    with Cons.prems have "run' = run" "rest = s # ss" by auto
    with True have "0 \<le> length (s # ss) \<and> run' = run @ take 0 (s # ss) \<and>
        rest = drop 0 (s # ss) \<and> run' \<noteq> [] \<and> ok rest" by simp
    then show ?thesis by blast
  next
    case False
    with Cons.prems have "shortest_run ok (run @ [s]) ss = Some (run', rest)" by auto
    from Cons.IH[OF this] obtain k where k: "k \<le> length ss" "run' = (run @ [s]) @ take k ss"
      "rest = drop k ss" "run' \<noteq> []" "ok rest" by blast
    then have "Suc k \<le> length (s # ss) \<and> run' = run @ take (Suc k) (s # ss) \<and>
        rest = drop (Suc k) (s # ss) \<and> run' \<noteq> [] \<and> ok rest" by simp
    then show ?thesis by blast
  qed
qed

lemma shortest_run_exists:
  "k \<le> length segs \<Longrightarrow> run @ take k segs \<noteq> [] \<Longrightarrow> ok (drop k segs) \<Longrightarrow>
     shortest_run ok run segs \<noteq> None"
proof (induction segs arbitrary: run k)
  case Nil
  then show ?case by simp
next
  case (Cons s ss)
  show ?case
  proof (cases "run \<noteq> [] \<and> ok (s # ss)")
    case True
    then show ?thesis by simp
  next
    case False
    with Cons.prems obtain k' where k': "k = Suc k'" by (cases k) auto
    with Cons.prems have "k' \<le> length ss" "(run @ [s]) @ take k' ss \<noteq> []" "ok (drop k' ss)"
      by auto
    from Cons.IH[OF this] False show ?thesis by auto
  qed
qed

lemma shortest_run_last:
  "shortest_run (\<lambda>rest. rest = []) run segs =
     (if run @ segs = [] then None else Some (run @ segs, []))"
  by (induction segs arbitrary: run) auto

lemma wildcard_match_Some:
  assumes "match_segs (Wildcard n # ps) segs = Some bs"
  shows "\<exists>k bs'. 0 < k \<and> k \<le> length segs \<and>
           bs = (n, Some (join_with CHR ''/'' (take k segs))) # bs' \<and>
           match_segs ps (drop k segs) = Some bs'"
proof -
  from assms obtain run rest bs' where
    sr: "shortest_run (\<lambda>rest. match_segs ps rest \<noteq> None) [] segs = Some (run, rest)"
    and bs: "match_segs ps rest = Some bs'" "bs = (n, Some (join_with CHR ''/'' run)) # bs'"
    by (auto split: option.splits)
  from shortest_run_Some[OF sr] obtain k where k: "k \<le> length segs" "run = take k segs"
    "rest = drop k segs" "run \<noteq> []" by auto
  then have "0 < k" by (cases k) auto
  with k bs show ?thesis by blast
qed

lemma wildcard_match_exists:
  assumes "0 < k" "k \<le> length segs" "match_segs ps (drop k segs) \<noteq> None"
  shows "match_segs (Wildcard n # ps) segs \<noteq> None"
proof -
  from assms have "[] @ take k segs \<noteq> []" by (cases segs) auto
  from shortest_run_exists[OF assms(2) this, of "\<lambda>rest. match_segs ps rest \<noteq> None"] assms(3)
  obtain run rest where
    sr: "shortest_run (\<lambda>rest. match_segs ps rest \<noteq> None) [] segs = Some (run, rest)"
    by auto
  from shortest_run_Some[OF sr] have "match_segs ps rest \<noteq> None" by auto
  with sr show ?thesis by auto
qed

lemma example_compile_shop:
  "compile_pattern ''/v1/*brand/shop/*name'' =
     Inr [Static ''v1'', Wildcard ''brand'', Static ''shop'', Wildcard ''name'']"
  by (simp add: compile_pattern_def path_segments_def compile_segment_def endsWith_def Let_def)

lemma example_segments_shop:
  "path_segments ''/v1/acme/shop/widgets/1'' = [''v1'', ''acme'', ''shop'', ''widgets'', ''1'']"
  by (simp add: path_segments_def)

text \<open>
  Claim C5. A wildcard that matches is bound to one contiguous, non-empty run of request
  segments joined by slashes, and the rest of the pattern matches the segments after the
  run; a wildcard that ends the pattern takes all the segments that are left. The pattern
  \<^verbatim>\<open>/v1/*brand/shop/*name\<close> on \<^verbatim>\<open>/v1/acme/shop/widgets/1\<close> binds \<^verbatim>\<open>brand\<close> to
  \<^verbatim>\<open>acme\<close> and \<^verbatim>\<open>name\<close> to \<^verbatim>\<open>widgets/1\<close>.
\<close>

theorem wildcard_contiguous_run:
  "(\<forall>bs. match_segs (Wildcard n # ps) segs = Some bs \<longrightarrow>
      (\<exists>k bs'. 0 < k \<and> k \<le> length segs \<and>
          bs = (n, Some (join_with CHR ''/'' (take k segs))) # bs' \<and>
          match_segs ps (drop k segs) = Some bs'))
   \<and> match_segs [Wildcard n] segs =
        (if segs = [] then None else Some [(n, Some (join_with CHR ''/'' segs))])
   \<and> compile_pattern ''/v1/*brand/shop/*name'' =
        Inr [Static ''v1'', Wildcard ''brand'', Static ''shop'', Wildcard ''name'']
   \<and> match_segs [Static ''v1'', Wildcard ''brand'', Static ''shop'', Wildcard ''name'']
        (path_segments ''/v1/acme/shop/widgets/1'') =
        Some [(''brand'', Some ''acme''), (''name'', Some ''widgets/1'')]"
proof (intro conjI)
  show "\<forall>bs. match_segs (Wildcard n # ps) segs = Some bs \<longrightarrow>
      (\<exists>k bs'. 0 < k \<and> k \<le> length segs \<and>
          bs = (n, Some (join_with CHR ''/'' (take k segs))) # bs' \<and>
          match_segs ps (drop k segs) = Some bs')"
    by (intro allI impI) (rule wildcard_match_Some)
  show "match_segs [Wildcard n] segs =
        (if segs = [] then None else Some [(n, Some (join_with CHR ''/'' segs))])"
    by (simp add: shortest_run_last)
  show "compile_pattern ''/v1/*brand/shop/*name'' =
        Inr [Static ''v1'', Wildcard ''brand'', Static ''shop'', Wildcard ''name'']"
    by (rule example_compile_shop)
  show "match_segs [Static ''v1'', Wildcard ''brand'', Static ''shop'', Wildcard ''name'']
        (path_segments ''/v1/acme/shop/widgets/1'') =
        Some [(''brand'', Some ''acme''), (''name'', Some ''widgets/1'')]"
    by (simp add: example_segments_shop)
qed

theorem wildcard_contiguous_run_witness:
  "match_segs [Wildcard ''brand'', Static ''shop'', Wildcard ''name'']
      [''acme'', ''shop'', ''widgets'', ''1''] =
     Some [(''brand'', Some ''acme''), (''name'', Some ''widgets/1'')]
   \<and> match_segs [Wildcard ''all''] [''x'', ''y'', ''z''] = Some [(''all'', Some ''x/y/z'')]"
  using wildcard_contiguous_run[of "''brand''" "[Static ''shop'', Wildcard ''name'']"
      "[''acme'', ''shop'', ''widgets'', ''1'']"]
    wildcard_contiguous_run[of "''all''" "[]" "[''x'', ''y'', ''z'']"]
  by simp

subsection \<open>Optional final segment\<close>

lemma optional_still_matches:
  "match_segs ps segs \<noteq> None \<Longrightarrow>
     match_segs (ps @ [OptionalParam n]) segs \<noteq> None \<and>
     match_segs (ps @ [OptionalParam n]) (segs @ [s]) \<noteq> None"
proof (induction ps segs rule: match_segs.induct)
  case (1 segs)
  then show ?case by (simp split: if_splits)
next
  case (2 l ps segs)
  then show ?case by (cases segs) (auto split: if_splits)
next
  case (3 m ps segs)
  then show ?case by (cases segs) auto
next
  case (4 m ps segs)
  then show ?case by (cases segs) auto
next
  case (5 m ps segs)
  from "5.prems" obtain bs where "match_segs (Wildcard m # ps) segs = Some bs" by auto
  from wildcard_match_Some[OF this] obtain k bs' where k: "0 < k" "k \<le> length segs"
    "match_segs ps (drop k segs) = Some bs'" by blast
  then have ne: "match_segs ps (drop k segs) \<noteq> None" by simp
  from "5.IH"(1)[OF ne] have
    a: "match_segs (ps @ [OptionalParam n]) (drop k segs) \<noteq> None" and
    b: "match_segs (ps @ [OptionalParam n]) (drop k segs @ [s]) \<noteq> None" by auto
  from b k(2) have b': "match_segs (ps @ [OptionalParam n]) (drop k (segs @ [s])) \<noteq> None"
    by simp
  have "match_segs (Wildcard m # ps @ [OptionalParam n]) segs \<noteq> None"
    using k(1) k(2) a by (rule wildcard_match_exists)
  moreover have "match_segs (Wildcard m # ps @ [OptionalParam n]) (segs @ [s]) \<noteq> None"
    using k(1) _ b' by (rule wildcard_match_exists) (use k(2) in simp)
  ultimately show ?case by simp
qed

lemma optional_fixed_prefix:
  "list_all is_fixed ps \<Longrightarrow> match_segs ps segs = Some bs \<Longrightarrow>
     match_segs (ps @ [OptionalParam n]) segs = Some (bs @ [(n, None)]) \<and>
     match_segs (ps @ [OptionalParam n]) (segs @ [s]) = Some (bs @ [(n, Some s)])"
proof (induction ps arbitrary: segs bs)
  case Nil
  then show ?case by (simp split: if_splits)
next
  case (Cons seg ps)
  then show ?case
    by (cases seg; cases segs) (auto split: if_splits)
qed

lemma example_compile_user:
  "compile_pattern ''/user/:name?'' = Inr [Static ''user'', OptionalParam ''name'']"
  by (simp add: compile_pattern_def path_segments_def compile_segment_def endsWith_def Let_def)

text \<open>
  Claim C6. When a pattern matches a path, the pattern extended by a final optional
  segment matches that path and also the path extended by one more segment. When the
  pattern before the optional segment has only static and named segments, the optional
  parameter is absent in the first case and bound to the extra segment in the second.
  The pattern \<^verbatim>\<open>/user/:name?\<close> matches \<^verbatim>\<open>/user\<close> with \<^verbatim>\<open>name\<close> absent and
  \<^verbatim>\<open>/user/a\<close> with \<^verbatim>\<open>name\<close> bound to \<^verbatim>\<open>a\<close>.
\<close>

theorem optional_final_segment:
  "(match_segs ps segs \<noteq> None \<longrightarrow>
      match_segs (ps @ [OptionalParam n]) segs \<noteq> None \<and>
      match_segs (ps @ [OptionalParam n]) (segs @ [s]) \<noteq> None)
   \<and> (list_all is_fixed ps \<longrightarrow>
        (\<forall>bs. match_segs ps segs = Some bs \<longrightarrow>
           match_segs (ps @ [OptionalParam n]) segs = Some (bs @ [(n, None)]) \<and>
           match_segs (ps @ [OptionalParam n]) (segs @ [s]) = Some (bs @ [(n, Some s)])))
   \<and> compile_pattern ''/user/:name?'' = Inr [Static ''user'', OptionalParam ''name'']
   \<and> match_segs [Static ''user'', OptionalParam ''name''] (path_segments ''/user'') =
        Some [(''name'', None)]
   \<and> match_segs [Static ''user'', OptionalParam ''name''] (path_segments ''/user/a'') =
        Some [(''name'', Some ''a'')]"
proof (intro conjI)
  show "match_segs ps segs \<noteq> None \<longrightarrow>
      match_segs (ps @ [OptionalParam n]) segs \<noteq> None \<and>
      match_segs (ps @ [OptionalParam n]) (segs @ [s]) \<noteq> None"
    by (intro impI) (rule optional_still_matches)
  show "list_all is_fixed ps \<longrightarrow>
        (\<forall>bs. match_segs ps segs = Some bs \<longrightarrow>
           match_segs (ps @ [OptionalParam n]) segs = Some (bs @ [(n, None)]) \<and>
           match_segs (ps @ [OptionalParam n]) (segs @ [s]) = Some (bs @ [(n, Some s)]))"
    by (intro impI allI) (rule optional_fixed_prefix)
  show "compile_pattern ''/user/:name?'' = Inr [Static ''user'', OptionalParam ''name'']"
    by (rule example_compile_user)
  show "match_segs [Static ''user'', OptionalParam ''name''] (path_segments ''/user'') =
        Some [(''name'', None)]"
    by (simp add: path_segments_def)
  show "match_segs [Static ''user'', OptionalParam ''name''] (path_segments ''/user/a'') =
        Some [(''name'', Some ''a'')]"
    by (simp add: path_segments_def)
qed

theorem optional_final_segment_witness:
  "match_segs ([Static ''user''] @ [OptionalParam ''name'']) [''user''] = Some [(''name'', None)]
   \<and> match_segs ([Static ''user''] @ [OptionalParam ''name'']) ([''user''] @ [''a'']) =
       Some [(''name'', Some ''a'')]"
  using optional_final_segment[of "[Static ''user'']" "[''user'']" "''name''" "''a''"]
  by simp

section \<open>Properties of the dispatcher\<close>

lemma run_ops_append: "run_ops g (a @ b) ctx = run_ops g b (run_ops g a ctx)"
  by (induction a arbitrary: ctx) simp_all

lemma run_chain_ctx:
  "run_chain impl codes g params fs ctx = (out, log, c) \<Longrightarrow> c = run_ops g log ctx"
proof (induction fs arbitrary: ctx out log c)
  case Nil
  then show ?case by simp
next
  case (Cons f fs)
  obtain ops res where ir: "impl f params ctx = (ops, res)" by (cases "impl f params ctx")
  show ?case
  proof (cases res)
    case Continue
    obtain out' log' c' where rc:
      "run_chain impl codes g params fs (run_ops g ops ctx) = (out', log', c')"
      by (cases "run_chain impl codes g params fs (run_ops g ops ctx)")
    from Cons.IH[OF rc] have "c' = run_ops g log' (run_ops g ops ctx)" .
    with Cons.prems ir Continue rc show ?thesis by (auto simp: run_ops_append)
  next
    case (Respond r)
    with Cons.prems ir show ?thesis by auto
  next
    case (CallHalt s b)
    obtain e where "halt codes (run_ops g ops ctx) s b = Inl e"
      by (simp add: halt_def)
    with Cons.prems ir CallHalt show ?thesis by auto
  next
    case (Fault e)
    with Cons.prems ir show ?thesis by auto
  qed
qed

lemma run_groups_ctx:
  "run_groups impl codes g params grps ctx = (out, log, n, c) \<Longrightarrow> c = run_ops g log ctx"
proof (induction grps arbitrary: ctx out log n c)
  case Nil
  then show ?case by simp
next
  case (Cons grp grps)
  obtain out1 log1 c1 where rc:
    "run_chain impl codes g params (group_before grp) ctx = (out1, log1, c1)"
    by (cases "run_chain impl codes g params (group_before grp) ctx")
  from run_chain_ctx[OF rc] have c1: "c1 = run_ops g log1 ctx" .
  show ?case
  proof (cases "out1 = Completed None")
    case True
    obtain out2 log2 n2 c2 where rg:
      "run_groups impl codes g params grps c1 = (out2, log2, n2, c2)"
      by (cases "run_groups impl codes g params grps c1")
    from Cons.IH[OF rg] have "c2 = run_ops g log2 c1" .
    with Cons.prems rc True rg c1 show ?thesis by (auto simp: run_ops_append)
  next
    case False
    with Cons.prems rc c1 show ?thesis
      by (auto split: chain_outcome.splits option.splits)
  qed
qed

lemma run_after_ran: "run_after impl g params fs ctx = (tr, c) \<Longrightarrow> tr = fs"
proof (induction fs arbitrary: ctx tr c)
  case Nil
  then show ?case by simp
next
  case (Cons f fs)
  obtain ops res where ir: "impl f params ctx = (ops, res)" by (cases "impl f params ctx")
  obtain tr' c' where ra: "run_after impl g params fs (run_ops g ops ctx) = (tr', c')"
    by (cases "run_after impl g params fs (run_ops g ops ctx)")
  from Cons.IH[OF ra] have "tr' = fs" .
  with Cons.prems ir ra show ?case by auto
qed

lemma finish_dynamic:
  assumes "d = finish impl g params r out log n ctx"
  shows "(\<forall>e. out = Threw (OtherError e) \<longrightarrow>
            resolution d = ErrorResponse e \<and> ran_dynamic_after d = [])
         \<and> ((\<forall>e. out \<noteq> Threw (OtherError e)) \<longrightarrow>
            (\<forall>e. resolution d \<noteq> ErrorResponse e) \<and> resolution d \<noteq> NotFound \<and>
            ran_dynamic_after d = ctx_middlewares ctx)"
    and "ops_log d = log"
  using assms
  by (auto simp: finish_def afterMiddlewares_def Let_def dest: run_after_ran
        split: chain_outcome.splits thrown.splits prod.splits)

text \<open>
  Claim C4. In every dispatch, the after-middleware that ran from the context's queue is
  the list of the functions passed to \<^verbatim>\<open>after\<close> by the before-chain and the handler,
  in call order, each once per call: so it is when the request was halted and when the
  chain completed. When the request ended in a fault other than halt, none of them ran.
\<close>

theorem dynamic_after_once:
  assumes d: "d = dispatch registry impl codes g now resp0 l0 req config"
  shows "(\<forall>s p i. resolution d = HaltResponse s p i \<longrightarrow>
            ran_dynamic_after d = after_args (ops_log d))
         \<and> (\<forall>resp. resolution d = Responded resp \<longrightarrow>
            ran_dynamic_after d = after_args (ops_log d))
         \<and> (\<forall>e. resolution d = ErrorResponse e \<longrightarrow> ran_dynamic_after d = [])
         \<and> (resolution d = NotFound \<longrightarrow> ran_dynamic_after d = [] \<and> ops_log d = [])"
proof -
  define ctx :: "('a, 'b) AppContext" where "ctx = AppContext_new now resp0 l0 req config"
  have q0: "ctx_middlewares ctx = []" by (simp add: ctx_def new_queue_empty)
  show ?thesis
  proof (cases "match_route registry (ctx_method ctx) (path ctx)")
    case None
    with d show ?thesis by (simp add: dispatch_def ctx_def[symmetric] Let_def)
  next
    case (Some rb)
    obtain r params where rb: "rb = (r, params)" by (cases rb)
    obtain out1 log1 n c1 where rg:
      "run_groups impl codes g params (route_groups r) ctx = (out1, log1, n, c1)"
      by (cases "run_groups impl codes g params (route_groups r) ctx")
    from run_groups_ctx[OF rg] have c1: "c1 = run_ops g log1 ctx" .
    obtain out2 log2 c2 where rc:
      "run_chain impl codes g params [route_handler r] c1 = (out2, log2, c2)"
      by (cases "run_chain impl codes g params [route_handler r] c1")
    from run_chain_ctx[OF rc] have c2: "c2 = run_ops g log2 c1" .
    obtain out log c where fin: "d = finish impl g params r out log n c"
      and c: "c = run_ops g log ctx"
    proof (cases "out1 = Completed None")
      case True
      with d Some rb rg rc have "d = finish impl g params r out2 (log1 @ log2) n c2"
        by (simp add: dispatch_def ctx_def[symmetric] Let_def
              del: run_chain.simps run_groups.simps)
      moreover have "c2 = run_ops g (log1 @ log2) ctx"
        by (simp add: c2 c1 run_ops_append)
      ultimately show ?thesis by (rule that)
    next
      case False
      with d Some rb rg have "d = finish impl g params r out1 log1 n c1"
        by (auto simp: dispatch_def ctx_def[symmetric] Let_def
              simp del: run_chain.simps run_groups.simps
              split: chain_outcome.splits option.splits)
      then show ?thesis using c1 by (rule that)
    qed
    have q: "ctx_middlewares c = after_args log"
      by (simp add: c run_ops_queue q0)
    from finish_dynamic[OF fin] q show ?thesis by auto
  qed
qed

lemma lower_GET: "toLowerCase ''GET'' = ''get''"
  by code_simp

theorem dynamic_after_once_witness:
  "resolution (dispatch example_registry example_impl [200 \<mapsto> ''OK''] (\<lambda>t. None) 0
       example_response () (example_request ''GET'' ''/'') (example_config None)) =
     HaltResponse 200 (Some (JString ''Hello World!''))
       \<lparr>init_headers = Some Map.empty, init_status = Some 200, init_statusText = Some []\<rparr>
   \<and> ran_dynamic_after (dispatch example_registry example_impl [200 \<mapsto> ''OK''] (\<lambda>t. None) 0
       example_response () (example_request ''GET'' ''/'') (example_config None)) = [''log'']
   \<and> resolution (dispatch example_registry example_impl [200 \<mapsto> ''OK''] (\<lambda>t. None) 0
       example_response () (example_request ''GET'' ''/b'') (example_config None)) =
     ErrorResponse ''boom''
   \<and> ran_dynamic_after (dispatch example_registry example_impl [200 \<mapsto> ''OK''] (\<lambda>t. None) 0
       example_response () (example_request ''GET'' ''/b'') (example_config None)) = []"
  using dynamic_after_once[OF refl, of example_registry example_impl "[200 \<mapsto> ''OK'']"
      "\<lambda>t. None" 0 example_response "()" "example_request ''GET'' ''/''" "example_config None"]
    dynamic_after_once[OF refl, of example_registry example_impl "[200 \<mapsto> ''OK'']"
      "\<lambda>t. None" 0 example_response "()" "example_request ''GET'' ''/b''" "example_config None"]
  by (simp add: dispatch_def AppContext_new_def example_request_def example_config_def
        example_response_def example_registry_def example_impl_def match_route_def
        path_segments_def lower_GET endsWith_def finish_def Let_def
        halt_def halt_body_def getResponseInit_def spread_def or_else_def empty_init_def
        afterMiddlewares_def after_def)

end
